theory Spec2Isabelle
  imports Main "HOL-Library.List_Lexorder"
begin

section \<open>Strings, errors and generators\<close>

text \<open>
  A Python \<open>str\<close> is a sequence of Unicode code points; a character is a code point and a
  one-character string is a singleton list. Comparison of strings (\<open>sorted\<close>) is
  lexicographic on code points, which is the list order of \<open>List_Lexorder\<close>.
\<close>

type_synonym pychar = nat
type_synonym pystr = "nat list"

definition str :: "string \<Rightarrow> pystr" where
  \<comment> \<open>an ASCII literal as a Python string\<close>
  "str s = map of_char s"

definition iter_str :: "pystr \<Rightarrow> pystr list" where
  \<comment> \<open>iterating over a \<open>str\<close> yields its one-character strings\<close>
  "iter_str s = map (\<lambda>c. [c]) s"

definition join :: "pystr list \<Rightarrow> pystr" where
  \<comment> \<open>\<open>"".join(combo)\<close>\<close>
  "join combo = concat combo"

text \<open>
  The methods \<open>str.isalpha\<close>, \<open>str.isdigit\<close>, \<open>str.isspace\<close>, \<open>str.swapcase\<close>,
  \<open>str.lower\<close> and the conversion \<open>int(char)\<close> read the Unicode character database of the
  interpreter. The database is a parameter of the model. \<open>swapcase\<close> of one character is
  a string (it may be longer than one character); \<open>py_int\<close> is \<open>None\<close> where \<open>int\<close> raises
  \<open>ValueError\<close>.
\<close>

record unicode_db =
  isalpha :: "pychar \<Rightarrow> bool"
  isdigit :: "pychar \<Rightarrow> bool"
  isspace :: "pychar \<Rightarrow> bool"
  swapcase :: "pychar \<Rightarrow> pystr"
  lower :: "pystr \<Rightarrow> pystr"
  py_int :: "pychar \<Rightarrow> int option"

text \<open>
  The values of CPython 3 on the code points U+0000 to U+00FF. Above U+00FF this
  instance treats a code point as a caseless symbol; it is only evaluated inside its range.
\<close>

definition latin1_upper :: "pychar \<Rightarrow> bool" where
  "latin1_upper c = (65 \<le> c \<and> c \<le> 90 \<or> 192 \<le> c \<and> c \<le> 222 \<and> c \<noteq> 215)"

definition latin1_lower :: "pychar \<Rightarrow> bool" where
  "latin1_lower c = (97 \<le> c \<and> c \<le> 122 \<or> 224 \<le> c \<and> c \<le> 254 \<and> c \<noteq> 247)"

definition latin1 :: unicode_db where
  "latin1 = \<lparr>
     isalpha = (\<lambda>c. latin1_upper c \<or> latin1_lower c \<or> c = 170 \<or> c = 181 \<or> c = 186
                    \<or> c = 223 \<or> c = 255),
     isdigit = (\<lambda>c. 48 \<le> c \<and> c \<le> 57 \<or> c = 178 \<or> c = 179 \<or> c = 185),
     isspace = (\<lambda>c. 9 \<le> c \<and> c \<le> 13 \<or> 28 \<le> c \<and> c \<le> 32 \<or> c = 133 \<or> c = 160),
     swapcase = (\<lambda>c. if latin1_upper c then [c + 32]
                     else if latin1_lower c then [c - 32]
                     else if c = 181 then [924]
                     else if c = 223 then [83, 83]
                     else if c = 255 then [376]
                     else [c]),
     lower = map (\<lambda>c. if latin1_upper c then c + 32 else c),
     py_int = (\<lambda>c. if 48 \<le> c \<and> c \<le> 57 then Some (int c - 48) else None)
   \<rparr>"

datatype error = ValueError | RuntimeError | FileNotFoundError | OSError | OtherException

text \<open>
  A generator is consumed one candidate at a time. It yields a candidate and suspends,
  finishes, or raises. Every generator of the program is finite. Memory is not bounded:
  a product too large for the machine is still a finite sequence here.
\<close>

datatype 'a gen = Done | Raise error | Yield 'a "'a gen"

fun yield_all :: "'a list \<Rightarrow> 'a gen" where
  \<comment> \<open>\<open>for x in xs: yield x\<close>\<close>
  "yield_all [] = Done"
| "yield_all (x # xs) = Yield x (yield_all xs)"

fun items :: "'a gen \<Rightarrow> 'a list" where
  \<comment> \<open>the candidates a generator yields, in order\<close>
  "items Done = []"
| "items (Raise e) = []"
| "items (Yield x g) = x # items g"

fun raised :: "'a gen \<Rightarrow> error option" where
  \<comment> \<open>the exception that ends a generator, if one does\<close>
  "raised Done = None"
| "raised (Raise e) = Some e"
| "raised (Yield x g) = raised g"

fun itertools_product :: "'a list list \<Rightarrow> 'a list list" where
  \<comment> \<open>\<open>itertools.product(*pools)\<close>: the rightmost pool advances fastest\<close>
  "itertools_product [] = [[]]"
| "itertools_product (pool # pools) =
     concat (map (\<lambda>x. map ((#) x) (itertools_product pools)) pool)"

section \<open>Constants\<close>

definition ascii_lowercase :: pystr where
  "ascii_lowercase = str ''abcdefghijklmnopqrstuvwxyz''"

definition ascii_uppercase :: pystr where
  "ascii_uppercase = str ''ABCDEFGHIJKLMNOPQRSTUVWXYZ''"

definition ascii_letters :: pystr where
  "ascii_letters = ascii_lowercase @ ascii_uppercase"

definition digits :: pystr where
  "digits = str ''0123456789''"

definition DEFAULT_CHARSET :: pystr where
  "DEFAULT_CHARSET = ascii_letters @ digits"

definition PATTERN_CHARSETS :: "pychar \<rightharpoonup> pystr" where
  "PATTERN_CHARSETS = map_of
     [(of_char CHR ''A'', ascii_uppercase),
      (of_char CHR ''a'', ascii_lowercase),
      (of_char CHR ''1'', digits),
      (of_char CHR ''0'', digits),
      (of_char CHR ''#'', digits),
      (of_char CHR ''?'', ascii_letters),
      (of_char CHR ''*'', DEFAULT_CHARSET)]"

definition TARGET_TYPE_MAP :: "pystr \<rightharpoonup> pystr" where
  "TARGET_TYPE_MAP = map_of
     [(str ''.pdf'', str ''pdf''),
      (str ''.zip'', str ''zip''),
      (str ''.rar'', str ''rar''),
      (str ''.7z'', str ''7z''),
      (str ''.iso'', str ''iso'')]"

section \<open>Candidate generators\<close>

definition substitutions :: "pychar \<rightharpoonup> pystr" where
  "substitutions = map_of
     [(of_char CHR ''0'', str ''oO''),
      (of_char CHR ''1'', str ''lLI!''),
      (of_char CHR ''3'', str ''eE''),
      (of_char CHR ''5'', str ''sS''),
      (of_char CHR ''7'', str ''tT''),
      (of_char CHR ''8'', str ''B'')]"

definition str_digit :: "int \<Rightarrow> pystr" where
  \<comment> \<open>\<open>str(n)\<close> for the result \<open>n\<close> of \<open>% 10\<close>, a single decimal digit\<close>
  "str_digit n = [nat (48 + n)]"

definition options :: "unicode_db \<Rightarrow> pychar \<Rightarrow> error + pystr list" where
  \<comment> \<open>the elements put into the set \<open>options\<close> for one character, in insertion order\<close>
  "options U char =
     (let with_case = (if isalpha U char then [[char], swapcase U char] else [[char]]);
          repls = iter_str (case substitutions char of None \<Rightarrow> [] | Some r \<Rightarrow> r)
      in if isdigit U char then
           (case py_int U char of
              None \<Rightarrow> Inl ValueError
            | Some d \<Rightarrow>
                Inr (with_case @ [str_digit ((d - 1) mod 10), str_digit ((d + 1) mod 10)] @ repls))
         else Inr (with_case @ repls))"

fun pools :: "unicode_db \<Rightarrow> pystr \<Rightarrow> error + pystr list list" where
  \<comment> \<open>\<open>pools.append(sorted(options))\<close> for each character of the seed\<close>
  "pools U [] = Inr []"
| "pools U (char # rest) =
     (case options U char of
        Inl e \<Rightarrow> Inl e
      | Inr opts \<Rightarrow>
          (case pools U rest of
             Inl e \<Rightarrow> Inl e
           | Inr ps \<Rightarrow> Inr (sort (remdups opts) # ps)))"

definition candidate_variants :: "unicode_db \<Rightarrow> pystr \<Rightarrow> pystr gen" where
  \<comment> \<open>the pools are built before the first \<open>yield\<close>, so a \<open>ValueError\<close> of \<open>int\<close> ends the
      generator before it yields anything\<close>
  "candidate_variants U seed =
     (case pools U seed of
        Inl e \<Rightarrow> Raise e
      | Inr ps \<Rightarrow> yield_all (map join (itertools_product ps)))"

definition char_sets :: "pystr \<Rightarrow> pystr \<Rightarrow> pystr list" where
  "char_sets pattern order =
     map (\<lambda>char. case PATTERN_CHARSETS char of
                    None \<Rightarrow> [char]
                  | Some charset \<Rightarrow> if order = str ''asc'' then charset else rev charset)
         pattern"

definition generate_from_pattern :: "pystr \<Rightarrow> pystr \<Rightarrow> pystr gen" where
  "generate_from_pattern pattern order =
     yield_all (map join (itertools_product (map iter_str (char_sets pattern order))))"

definition generate_by_length :: "int \<Rightarrow> pystr \<Rightarrow> pystr gen" where
  \<comment> \<open>\<open>itertools.product(charset, repeat=length)\<close> raises \<open>ValueError\<close> on a negative
      \<open>repeat\<close>; inside a generator function the exception appears at the first pull\<close>
  "generate_by_length len charset =
     (if len < 0 then Raise ValueError
      else yield_all (map join (itertools_product (replicate (nat len) (iter_str charset)))))"

fun limited_from :: "int \<Rightarrow> int \<Rightarrow> 'a gen \<Rightarrow> 'a gen" where
  \<comment> \<open>the \<open>enumerate\<close> loop of \<open>limited\<close>, at position \<open>index\<close>\<close>
  "limited_from limit index Done = Done"
| "limited_from limit index (Raise e) = Raise e"
| "limited_from limit index (Yield candidate g) =
     (if index \<ge> limit then Done else Yield candidate (limited_from limit (index + 1) g))"

definition limited :: "'a gen \<Rightarrow> int option \<Rightarrow> 'a gen" where
  "limited generator limit =
     (case limit of None \<Rightarrow> generator | Some n \<Rightarrow> limited_from n 0 generator)"

text \<open>
  A wordlist path names nothing, a file that cannot be opened for reading, or a text file
  given by its lines.
\<close>

type_synonym path = pystr

datatype disk_file = Missing | Unreadable | Lines "pystr list"

definition exists_path :: "(path \<Rightarrow> disk_file) \<Rightarrow> path \<Rightarrow> bool" where
  "exists_path fs p = (fs p \<noteq> Missing)"

definition strip :: "unicode_db \<Rightarrow> pystr \<Rightarrow> pystr" where
  "strip U line = rev (dropWhile (isspace U) (rev (dropWhile (isspace U) line)))"

definition read_wordlist :: "unicode_db \<Rightarrow> (path \<Rightarrow> disk_file) \<Rightarrow> path \<Rightarrow> pystr gen" where
  "read_wordlist U fs p =
     (case fs p of
        Missing \<Rightarrow> Raise FileNotFoundError
      | Unreadable \<Rightarrow> Raise OSError
      | Lines ls \<Rightarrow> yield_all (filter (\<lambda>word. word \<noteq> []) (map (strip U) ls)))"

section \<open>Password testers\<close>

text \<open>
  The decryption libraries and executables are the environment. For each password the
  environment says what the library call inside the \<open>try\<close> block does: it succeeds or it
  raises one of the exceptions that the handlers tell apart. An optional import that
  failed is \<open>None\<close>.
\<close>

datatype pdf_outcome = PdfNotEncrypted | PdfDecrypt int | PdfException

datatype zip_outcome = ZipRead | ZipException

datatype rar_outcome =
  RarRead | BadRarFile | RarWrongPassword | RarCRCError | RarCannotExec | RarException

datatype sevenzip_outcome =
  SevenZipRead | PasswordRequired | Bad7zFile | UnsupportedCompressionMethodError
  | SevenZipRuntimeError | SevenZipException

datatype process_outcome = ExecutableNotFound | Returncode int | ProcessException

record tools =
  PdfReader :: "pystr \<Rightarrow> pdf_outcome"
  ZipFile :: "pystr \<Rightarrow> zip_outcome"
  rarfile :: "(pystr \<Rightarrow> rar_outcome) option"
  py7zr :: "(pystr \<Rightarrow> sevenzip_outcome) option"
  platform_system :: pystr
  hdiutil :: "pystr \<Rightarrow> process_outcome"
  sevenzip :: "pystr \<Rightarrow> process_outcome"

definition try_pdf_password :: "tools \<Rightarrow> pystr \<Rightarrow> error + bool" where
  \<comment> \<open>\<open>bool(result)\<close> of the value that \<open>decrypt\<close> returns; \<open>except Exception\<close> covers
      every exception of the library\<close>
  "try_pdf_password T password =
     (case PdfReader T password of
        PdfNotEncrypted \<Rightarrow> Inr True
      | PdfDecrypt result \<Rightarrow> Inr (result \<noteq> 0)
      | PdfException \<Rightarrow> Inr False)"

definition try_zip_password :: "tools \<Rightarrow> pystr \<Rightarrow> error + bool" where
  "try_zip_password T password =
     (case ZipFile T password of ZipRead \<Rightarrow> Inr True | ZipException \<Rightarrow> Inr False)"

definition try_rar_password :: "tools \<Rightarrow> pystr \<Rightarrow> error + bool" where
  "try_rar_password T password =
     (case rarfile T of
        None \<Rightarrow> Inl RuntimeError
      | Some rf \<Rightarrow>
          (case rf password of
             RarRead \<Rightarrow> Inr True
           | BadRarFile \<Rightarrow> Inr False
           | RarWrongPassword \<Rightarrow> Inr False
           | RarCRCError \<Rightarrow> Inr False
           | RarCannotExec \<Rightarrow> Inl RuntimeError
           | RarException \<Rightarrow> Inr False))"

definition try_7z_password :: "tools \<Rightarrow> pystr \<Rightarrow> error + bool" where
  \<comment> \<open>no handler for other exceptions: they leave the function\<close>
  "try_7z_password T password =
     (case py7zr T of
        None \<Rightarrow> Inl RuntimeError
      | Some archive \<Rightarrow>
          (case archive password of
             SevenZipRead \<Rightarrow> Inr True
           | PasswordRequired \<Rightarrow> Inr False
           | Bad7zFile \<Rightarrow> Inr False
           | UnsupportedCompressionMethodError \<Rightarrow> Inr False
           | SevenZipRuntimeError \<Rightarrow> Inr False
           | SevenZipException \<Rightarrow> Inl OtherException))"

definition try_iso_hdiutil :: "tools \<Rightarrow> pystr \<Rightarrow> error + bool" where
  "try_iso_hdiutil T password =
     (case hdiutil T password of
        ExecutableNotFound \<Rightarrow> Inl RuntimeError
      | Returncode rc \<Rightarrow> Inr (rc = 0)
      | ProcessException \<Rightarrow> Inr False)"

definition try_iso_with_7z_cli :: "tools \<Rightarrow> pystr \<Rightarrow> error + bool" where
  "try_iso_with_7z_cli T password =
     (case sevenzip T password of
        ExecutableNotFound \<Rightarrow> Inl RuntimeError
      | Returncode rc \<Rightarrow> Inr (rc = 0)
      | ProcessException \<Rightarrow> Inl OtherException)"

definition try_iso_password :: "tools \<Rightarrow> pystr \<Rightarrow> error + bool" where
  "try_iso_password T password =
     (if platform_system T = str ''Darwin'' then try_iso_hdiutil T password
      else try_iso_with_7z_cli T password)"

definition try_password :: "tools \<Rightarrow> pystr \<Rightarrow> pystr \<Rightarrow> error + bool" where
  "try_password T password target_type =
     (if target_type = str ''pdf'' then try_pdf_password T password
      else if target_type = str ''zip'' then try_zip_password T password
      else if target_type = str ''rar'' then try_rar_password T password
      else if target_type = str ''7z'' then try_7z_password T password
      else if target_type = str ''iso'' then try_iso_password T password
      else Inl ValueError)"

section \<open>The search\<close>

record namespace =
  seed :: "pystr option"
  pattern :: "pystr option"
  pattern_prefix :: pystr
  pattern_suffix :: pystr
  pattern_order :: pystr
  length_arg :: "int option"
  charset :: pystr
  wordlist :: "path option"
  max_candidates :: int
  seed_variants :: int
  type_arg :: "pystr option"

definition truthy :: "pystr option \<Rightarrow> bool" where
  \<comment> \<open>truth value of an optional string: neither \<open>None\<close> nor empty\<close>
  "truthy s = (case s of None \<Rightarrow> False | Some v \<Rightarrow> v \<noteq> [])"

definition pattern_spec :: "namespace \<Rightarrow> pystr option" where
  "pattern_spec args =
     (if truthy (pattern args) \<or> pattern_prefix args \<noteq> [] \<or> pattern_suffix args \<noteq> []
      then Some (pattern_prefix args @ (case pattern args of None \<Rightarrow> [] | Some p \<Rightarrow> p)
                 @ pattern_suffix args)
      else None)"

definition seed_streams :: "unicode_db \<Rightarrow> namespace \<Rightarrow> pystr gen list" where
  "seed_streams U args =
     (case seed args of
        None \<Rightarrow> []
      | Some s \<Rightarrow>
          if s \<noteq> [] then [limited (candidate_variants U s) (Some (seed_variants args))]
          else [])"

definition length_streams :: "namespace \<Rightarrow> pystr gen list" where
  "length_streams args =
     (case length_arg args of
        None \<Rightarrow> []
      | Some n \<Rightarrow>
          if n \<noteq> 0
          then [limited (generate_by_length n (charset args)) (Some (max_candidates args))]
          else [])"

definition pattern_streams :: "namespace \<Rightarrow> pystr gen list" where
  \<comment> \<open>\<open>if pattern_spec: ... elif args.length: ...\<close>\<close>
  "pattern_streams args =
     (case pattern_spec args of
        None \<Rightarrow> length_streams args
      | Some spec \<Rightarrow>
          if spec \<noteq> []
          then [limited (generate_from_pattern spec (pattern_order args))
                        (Some (max_candidates args))]
          else length_streams args)"

definition wordlist_streams :: "unicode_db \<Rightarrow> (path \<Rightarrow> disk_file) \<Rightarrow> namespace \<Rightarrow> pystr gen list" where
  "wordlist_streams U fs args =
     (case wordlist args of
        None \<Rightarrow> []
      | Some p \<Rightarrow> if exists_path fs p then [read_wordlist U fs p] else [])"

definition candidate_streams :: "unicode_db \<Rightarrow> (path \<Rightarrow> disk_file) \<Rightarrow> namespace \<Rightarrow> pystr gen list" where
  "candidate_streams U fs args =
     seed_streams U args @ pattern_streams args @ wordlist_streams U fs args"

text \<open>
  The state of one run: the set \<open>seen\<close>, the counter \<open>attempted\<close>, the progress lines
  printed (count and last password), and the passwords handed to \<open>try_password\<close>, in order.
\<close>

record run =
  seen :: "pystr set"
  attempted :: nat
  progress :: "(nat \<times> pystr) list"
  tried :: "pystr list"

definition log_attempt :: "run \<Rightarrow> pystr \<Rightarrow> run" where
  "log_attempt st password =
     (let n = attempted st + 1
      in st\<lparr>attempted := n,
            progress := (if n mod 500 = 0 then progress st @ [(n, password)] else progress st)\<rparr>)"

fun for_password :: "(pystr \<Rightarrow> error + bool) \<Rightarrow> pystr gen \<Rightarrow> run \<Rightarrow> (error + pystr option) \<times> run" where
  \<comment> \<open>the inner loop over one stream: \<open>Inr None\<close> when the stream ends without a match\<close>
  "for_password tester Done st = (Inr None, st)"
| "for_password tester (Raise e) st = (Inl e, st)"
| "for_password tester (Yield password g) st =
     (if password \<in> seen st then for_password tester g st
      else
        let st1 = log_attempt (st\<lparr>seen := insert password (seen st)\<rparr>) password;
            st2 = st1\<lparr>tried := tried st1 @ [password]\<rparr>
        in case tester password of
             Inl e \<Rightarrow> (Inl e, st2)
           | Inr True \<Rightarrow> (Inr (Some password), st2)
           | Inr False \<Rightarrow> for_password tester g st2)"

fun for_stream :: "(pystr \<Rightarrow> error + bool) \<Rightarrow> pystr gen list \<Rightarrow> run \<Rightarrow> (error + pystr option) \<times> run" where
  \<comment> \<open>the outer loop over the streams; \<open>return None\<close> after the last one\<close>
  "for_stream tester [] st = (Inr None, st)"
| "for_stream tester (stream # streams) st =
     (case for_password tester stream st of
        (Inr None, st') \<Rightarrow> for_stream tester streams st'
      | (Inr (Some password), st') \<Rightarrow> (Inr (Some password), st')
      | (Inl e, st') \<Rightarrow> (Inl e, st'))"

definition start :: run where
  "start = \<lparr>seen = {}, attempted = 0, progress = [], tried = []\<rparr>"

definition crack_target ::
  "unicode_db \<Rightarrow> (path \<Rightarrow> disk_file) \<Rightarrow> tools \<Rightarrow> pystr \<Rightarrow> namespace \<Rightarrow> (error + pystr option) \<times> run" where
  "crack_target U fs T target_type args =
     for_stream (\<lambda>password. try_password T password target_type)
                (candidate_streams U fs args) start"

section \<open>Target type and entry point\<close>

definition determine_target_type :: "unicode_db \<Rightarrow> pystr \<Rightarrow> pystr option \<Rightarrow> pystr" where
  \<comment> \<open>the first argument of the source is a path; the function reads only its suffix\<close>
  "determine_target_type U path_suffix forced =
     (case forced of
        Some t \<Rightarrow>
          if t \<noteq> [] then t
          else (case TARGET_TYPE_MAP (lower U path_suffix) of None \<Rightarrow> str ''pdf'' | Some ty \<Rightarrow> ty)
      | None \<Rightarrow>
          (case TARGET_TYPE_MAP (lower U path_suffix) of None \<Rightarrow> str ''pdf'' | Some ty \<Rightarrow> ty))"

definition no_strategy_warning :: "namespace \<Rightarrow> bool" where
  \<comment> \<open>the condition under which \<open>main\<close> prints its only warning; the run goes on\<close>
  "no_strategy_warning args =
     (\<not> truthy (pattern args)
      \<and> \<not> (case length_arg args of None \<Rightarrow> False | Some n \<Rightarrow> n \<noteq> 0)
      \<and> wordlist args = None
      \<and> \<not> truthy (seed args))"

definition main ::
  "unicode_db \<Rightarrow> (path \<Rightarrow> disk_file) \<Rightarrow> tools \<Rightarrow> bool \<Rightarrow> pystr \<Rightarrow> namespace \<Rightarrow> error + int" where
  \<comment> \<open>\<open>target_found\<close>: \<open>resolve_target\<close> finds the file; \<open>path_suffix\<close>: its suffix.
      The result is the exit status, or the exception that leaves \<open>main\<close>. The messages
      printed and the output file written on success are left out.\<close>
  "main U fs T target_found path_suffix args =
     (if \<not> target_found then Inr 2
      else
        let target_type = determine_target_type U path_suffix (type_arg args)
        in case fst (crack_target U fs T target_type args) of
             Inl e \<Rightarrow> Inl e
           | Inr None \<Rightarrow> Inr 1
           | Inr (Some password) \<Rightarrow> if password \<noteq> [] then Inr 0 else Inr 1)"

section \<open>Notions used in the statements\<close>

fun index_of :: "'a list \<Rightarrow> 'a \<Rightarrow> nat" where
  \<comment> \<open>position of the first occurrence of a character in a charset\<close>
  "index_of [] c = 0"
| "index_of (x # xs) c = (if x = c then 0 else Suc (index_of xs c))"

fun lex_before :: "'a list \<Rightarrow> 'a list \<Rightarrow> 'a list \<Rightarrow> bool" where
  \<comment> \<open>strict lexicographic order on strings induced by the order of the charset\<close>
  "lex_before cs [] [] = False"
| "lex_before cs [] (y # ys) = True"
| "lex_before cs (x # xs) [] = False"
| "lex_before cs (x # xs) (y # ys) =
     (index_of cs x < index_of cs y \<or> (x = y \<and> lex_before cs xs ys))"

fun chain :: "'a gen list \<Rightarrow> 'a gen" where
  \<comment> \<open>the streams consumed one after the other; an exception ends the whole sequence\<close>
  "chain [] = Done"
| "chain (Done # gs) = chain gs"
| "chain (Raise e # gs) = Raise e"
| "chain (Yield x g # gs) = Yield x (chain (g # gs))"

fun first_occurrences :: "'a list \<Rightarrow> 'a list" where
  \<comment> \<open>a list without the repetitions of earlier elements\<close>
  "first_occurrences [] = []"
| "first_occurrences (x # xs) = x # first_occurrences (filter (\<lambda>y. y \<noteq> x) xs)"

definition plain_char :: "unicode_db \<Rightarrow> pychar \<Rightarrow> bool" where
  \<comment> \<open>a character whose case swap, if it has one, is one character, and whose digit
      value, if it counts as a digit, is accepted by \<open>int\<close>\<close>
  "plain_char U c = ((isalpha U c \<longrightarrow> length (swapcase U c) = 1)
                     \<and> (isdigit U c \<longrightarrow> py_int U c \<noteq> None))"

definition verdict :: "(pystr \<Rightarrow> error + bool) \<Rightarrow> pystr list \<Rightarrow> error option \<Rightarrow> error + pystr option" where
  \<comment> \<open>what a sequence of candidates decides: the first candidate on which the tester does
      not answer \<open>False\<close>, and otherwise the way the sequence ends\<close>
  "verdict tester cands ending =
     (case find (\<lambda>p. tester p \<noteq> Inr False) cands of
        Some p \<Rightarrow> (case tester p of Inl e \<Rightarrow> Inl e | Inr b \<Rightarrow> Inr (Some p))
      | None \<Rightarrow> (case ending of None \<Rightarrow> Inr None | Some e \<Rightarrow> Inl e))"

definition missing_tool_detected :: "tools \<Rightarrow> pystr \<Rightarrow> pystr \<Rightarrow> bool" where
  \<comment> \<open>the cases in which the source itself finds a tool missing when the password is
      tried: \<open>rarfile is None\<close>, \<open>RarCannotExec\<close>, \<open>py7zr is None\<close>, and
      \<open>FileNotFoundError\<close> from running \<open>hdiutil\<close> or \<open>7z\<close>. A failure of a library
      inside a \<open>try\<close> block that has no such case is not one of them.\<close>
  "missing_tool_detected T target_type password =
     (if target_type = str ''rar''
      then (case rarfile T of None \<Rightarrow> True | Some rf \<Rightarrow> rf password = RarCannotExec)
      else if target_type = str ''7z'' then py7zr T = None
      else if target_type = str ''iso''
      then (if platform_system T = str ''Darwin'' then hdiutil T password = ExecutableNotFound
            else sevenzip T password = ExecutableNotFound)
      else False)"

section \<open>A sample run\<close>

text \<open>
  A seed "a", a wordlist file "w" with the lines "a" and "b", and an environment in which
  the ZIP archive opens with the password "a", the PDF rejects every password, and the RAR
  and 7-Zip libraries are not installed.
\<close>

definition sample_args :: namespace where
  "sample_args = \<lparr>seed = Some (str ''a''), pattern = None, pattern_prefix = [],
     pattern_suffix = [], pattern_order = str ''asc'', length_arg = None,
     charset = DEFAULT_CHARSET, wordlist = Some (str ''w''), max_candidates = 250000,
     seed_variants = 1000, type_arg = None\<rparr>"

definition sample_fs :: "path \<Rightarrow> disk_file" where
  "sample_fs p = (if p = str ''w'' then Lines [str ''a'' @ [10], str ''b'' @ [10]] else Missing)"

definition sample_tools :: tools where
  "sample_tools = \<lparr>PdfReader = (\<lambda>password. PdfDecrypt 0),
     ZipFile = (\<lambda>password. if password = str ''a'' then ZipRead else ZipException),
     rarfile = None, py7zr = None, platform_system = str ''Linux'',
     hdiutil = (\<lambda>password. ExecutableNotFound),
     sevenzip = (\<lambda>password. ExecutableNotFound)\<rparr>"

section \<open>Generators and Cartesian products\<close>

lemma items_yield_all: "items (yield_all xs) = xs"
  by (induction xs) simp_all

lemma raised_yield_all: "raised (yield_all xs) = None"
  by (induction xs) simp_all

lemma join_iter_product:
  "map join (itertools_product (map iter_str css)) = itertools_product css"
proof (induction css)
  case Nil
  show ?case by (simp add: join_def)
next
  case (Cons cs css)
  have "map join (itertools_product (iter_str cs # map iter_str css))
      = concat (map (\<lambda>c. map (\<lambda>t. c # join t) (itertools_product (map iter_str css))) cs)"
    by (simp add: iter_str_def join_def map_concat comp_def)
  also have "\<dots> = concat (map (\<lambda>c. map ((#) c) (map join (itertools_product (map iter_str css)))) cs)"
    by (simp add: comp_def)
  finally show ?case using Cons.IH by simp
qed

lemma product_length: "length (itertools_product pls) = prod_list (map length pls)"
proof (induction pls)
  case (Cons p ps)
  then show ?case by (simp add: length_concat comp_def sum_list_triv)
qed simp

lemma product_member:
  "t \<in> set (itertools_product pls) \<longleftrightarrow> list_all2 (\<lambda>x pool. x \<in> set pool) t pls"
proof (induction pls arbitrary: t)
  case Nil
  show ?case by simp
next
  case (Cons p ps)
  show ?case
  proof (cases t)
    case Nil
    then show ?thesis by auto
  next
    case (Cons a u)
    have "a # u \<in> set (itertools_product (p # ps))
          \<longleftrightarrow> a \<in> set p \<and> u \<in> set (itertools_product ps)"
      by auto
    with Cons show ?thesis by (simp add: Cons.IH)
  qed
qed

lemma distinct_blocks:
  "distinct p \<Longrightarrow> distinct R \<Longrightarrow> distinct (concat (map (\<lambda>x. map ((#) x) R) p))"
  by (induction p) (auto simp: distinct_map inj_on_def)

lemma product_distinct:
  "(\<forall>p \<in> set pls. distinct p) \<Longrightarrow> distinct (itertools_product pls)"
  by (induction pls) (simp_all add: distinct_blocks)

subsection \<open>Fixed-length enumeration\<close>

text \<open>\<open>lex_before\<close> is the lexicographic extension of the order of positions in the charset.\<close>

lemma lex_before_lexord:
  "lex_before cs s t \<longleftrightarrow> (s, t) \<in> lexord {(a, b). index_of cs a < index_of cs b}"
  by (induction cs s t rule: lex_before.induct) simp_all

lemma sorted_index_of: "distinct cs \<Longrightarrow> sorted_wrt (\<lambda>a b. index_of cs a < index_of cs b) cs"
proof (induction cs)
  case Nil
  show ?case by simp
next
  case (Cons a cs)
  then have ih: "sorted_wrt (\<lambda>x y. index_of cs x < index_of cs y) cs" by simp
  have "sorted_wrt (\<lambda>x y. index_of (a # cs) x < index_of (a # cs) y) cs"
    using Cons.prems by (intro sorted_wrt_mono_rel[OF _ ih]) auto
  with Cons.prems show ?case by auto
qed

lemma sorted_blocks:
  assumes "sorted_wrt (\<lambda>a b. index_of cs a < index_of cs b) p"
    and "sorted_wrt (lex_before cs) R"
  shows "sorted_wrt (lex_before cs) (concat (map (\<lambda>x. map ((#) x) R) p))"
  using assms(1)
proof (induction p)
  case Nil
  show ?case by simp
next
  case (Cons a p)
  have "sorted_wrt (lex_before cs) (map ((#) a) R)"
    using assms(2) by (simp add: sorted_wrt_map)
  with Cons show ?case
    by (auto simp: sorted_wrt_append)
qed

lemma product_sorted:
  "distinct cs \<Longrightarrow> sorted_wrt (lex_before cs) (itertools_product (replicate n cs))"
  by (induction n) (simp_all add: sorted_blocks sorted_index_of)

lemma list_all2_replicate:
  "list_all2 (\<lambda>x pool. x \<in> set pool) t (replicate n cs) \<longleftrightarrow> length t = n \<and> set t \<subseteq> set cs"
  by (induction n arbitrary: t) (auto simp: list_all2_Cons2 length_Suc_conv)

text \<open>
  C7. For a non-negative length and a charset of distinct characters, \<open>generate_by_length\<close>
  finishes without an exception and yields exactly the strings of that length over the
  charset, in the strict lexicographic order that the charset's order induces (so each
  string occurs once); there are \<open>|charset| ^ length\<close> of them. Length 0 yields
  the empty string alone, an empty charset with a positive length yields nothing, and
  length 2 over "ab" yields "aa", "ab", "ba", "bb" in that order.
\<close>

theorem generate_by_length_lexicographic:
  assumes "0 \<le> len" and "distinct cs"
  shows "raised (generate_by_length len cs) = None
       \<and> set (items (generate_by_length len cs))
           = {s. length s = nat len \<and> set s \<subseteq> set cs}
       \<and> sorted_wrt (lex_before cs) (items (generate_by_length len cs))
       \<and> length (items (generate_by_length len cs)) = length cs ^ nat len
       \<and> items (generate_by_length 0 cs) = [[]]
       \<and> (cs = [] \<and> 0 < len \<longrightarrow> items (generate_by_length len cs) = [])
       \<and> items (generate_by_length 2 (str ''ab''))
           = [str ''aa'', str ''ab'', str ''ba'', str ''bb'']"
proof -
  have g: "items (generate_by_length len cs) = itertools_product (replicate (nat len) cs)"
    using assms(1) join_iter_product[of "replicate (nat len) cs"]
    by (simp add: generate_by_length_def items_yield_all)
  have r: "raised (generate_by_length len cs) = None"
    using assms(1) by (simp add: generate_by_length_def raised_yield_all)
  have s: "set (items (generate_by_length len cs))
           = {s. length s = nat len \<and> set s \<subseteq> set cs}"
    unfolding g by (auto simp: product_member list_all2_replicate)
  have o: "sorted_wrt (lex_before cs) (items (generate_by_length len cs))"
    unfolding g using assms(2) by (rule product_sorted)
  have l: "length (items (generate_by_length len cs)) = length cs ^ nat len"
    unfolding g by (simp add: product_length)
  have z: "items (generate_by_length 0 cs) = [[]]"
    by (simp add: generate_by_length_def join_def)
  have e: "cs = [] \<and> 0 < len \<longrightarrow> items (generate_by_length len cs) = []"
    using l by (auto simp: power_0_left)
  have ab: "items (generate_by_length 2 (str ''ab''))
           = [str ''aa'', str ''ab'', str ''ba'', str ''bb'']"
    by (simp add: generate_by_length_def str_def iter_str_def join_def numeral_2_eq_2)
  from r s o l z e ab show ?thesis by blast
qed

theorem generate_by_length_lexicographic_witness:
  "(0::int) \<le> 2 \<and> distinct (str ''ab'')
   \<and> sorted_wrt (lex_before (str ''ab'')) (items (generate_by_length 2 (str ''ab'')))
   \<and> length (items (generate_by_length 2 (str ''ab''))) = 4"
proof -
  have h: "(0::int) \<le> 2" by simp
  have d: "distinct (str ''ab'')" by (simp add: str_def)
  show ?thesis using generate_by_length_lexicographic[OF h d] d by (simp add: str_def)
qed

subsection \<open>Pattern expansion\<close>

lemma ascii_lowercase_distinct: "distinct ascii_lowercase"
  by (simp add: ascii_lowercase_def str_def)

lemma ascii_uppercase_distinct: "distinct ascii_uppercase"
  by (simp add: ascii_uppercase_def str_def)

lemma digits_distinct: "distinct digits"
  by (simp add: digits_def str_def)

lemma ascii_letters_distinct: "distinct ascii_letters"
  by (simp add: ascii_letters_def ascii_lowercase_def ascii_uppercase_def str_def)

lemma DEFAULT_CHARSET_distinct: "distinct DEFAULT_CHARSET"
  by (simp add: DEFAULT_CHARSET_def ascii_letters_def ascii_lowercase_def ascii_uppercase_def
      digits_def str_def)

lemma PATTERN_CHARSETS_cases:
  "PATTERN_CHARSETS c = Some cs \<Longrightarrow>
     cs = ascii_uppercase \<or> cs = ascii_lowercase \<or> cs = digits \<or> cs = ascii_letters
     \<or> cs = DEFAULT_CHARSET"
  by (auto simp: PATTERN_CHARSETS_def split: if_splits)

lemma PATTERN_CHARSETS_distinct: "PATTERN_CHARSETS c = Some cs \<Longrightarrow> distinct cs"
  using PATTERN_CHARSETS_cases[of c cs] ascii_lowercase_distinct ascii_uppercase_distinct
    digits_distinct ascii_letters_distinct DEFAULT_CHARSET_distinct
  by auto

lemma PATTERN_CHARSETS_nonempty: "PATTERN_CHARSETS c = Some cs \<Longrightarrow> cs \<noteq> []"
  using PATTERN_CHARSETS_cases[of c cs]
  by (auto simp: DEFAULT_CHARSET_def ascii_letters_def ascii_lowercase_def ascii_uppercase_def
      digits_def str_def)

lemma items_generate_from_pattern:
  "items (generate_from_pattern pat ord) = itertools_product (char_sets pat ord)"
  by (simp add: generate_from_pattern_def items_yield_all join_iter_product)

lemma char_sets_distinct: "\<forall>p \<in> set (char_sets pat ord). distinct p"
  by (auto simp: char_sets_def dest: PATTERN_CHARSETS_distinct split: option.splits)

lemma char_sets_nonempty: "\<forall>p \<in> set (char_sets pat ord). p \<noteq> []"
  by (auto simp: char_sets_def dest: PATTERN_CHARSETS_nonempty split: option.splits)

lemma product_lengths: "t \<in> set (itertools_product pls) \<Longrightarrow> length t = length pls"
  by (simp add: product_member list_all2_lengthD)

text \<open>
  C5. Pattern expansion finishes without an exception and yields exactly
  \<open>s1 * ... * sn\<close> candidates, where \<open>si\<close> is the size of the character set of the
  \<open>i\<close>-th token (1 for a literal); every candidate has one character per token, and no
  candidate occurs twice.
\<close>

theorem generate_from_pattern_count:
  "raised (generate_from_pattern pat ord) = None
   \<and> length (items (generate_from_pattern pat ord))
       = prod_list (map (\<lambda>char. case PATTERN_CHARSETS char of
                                  None \<Rightarrow> 1 | Some cs \<Rightarrow> length cs) pat)
   \<and> (\<forall>candidate \<in> set (items (generate_from_pattern pat ord)). length candidate = length pat)
   \<and> distinct (items (generate_from_pattern pat ord))"
proof -
  have r: "raised (generate_from_pattern pat ord) = None"
    by (simp add: generate_from_pattern_def raised_yield_all)
  have m: "map length (char_sets pat ord)
         = map (\<lambda>char. case PATTERN_CHARSETS char of None \<Rightarrow> 1 | Some cs \<Rightarrow> length cs) pat"
    by (simp add: char_sets_def comp_def split: option.splits)
  have c: "length (items (generate_from_pattern pat ord))
         = prod_list (map (\<lambda>char. case PATTERN_CHARSETS char of
                                  None \<Rightarrow> 1 | Some cs \<Rightarrow> length cs) pat)"
    by (simp only: items_generate_from_pattern product_length m)
  have l: "\<forall>candidate \<in> set (items (generate_from_pattern pat ord)). length candidate = length pat"
    using product_lengths[of _ "char_sets pat ord"]
    by (simp add: items_generate_from_pattern char_sets_def)
  have d: "distinct (items (generate_from_pattern pat ord))"
    unfolding items_generate_from_pattern using char_sets_distinct by (rule product_distinct)
  from r c l d show ?thesis by blast
qed

theorem generate_from_pattern_count_witness:
  "length (items (generate_from_pattern (str ''A1'') (str ''asc''))) = 260
   \<and> list_all (\<lambda>candidate. length candidate = 2)
         (items (generate_from_pattern (str ''A1'') (str ''asc'')))
   \<and> distinct (items (generate_from_pattern (str ''A1'') (str ''asc'')))"
  using generate_from_pattern_count[of "str ''A1''" "str ''asc''"]
  by (simp add: list_all_iff str_def PATTERN_CHARSETS_def ascii_uppercase_def digits_def)

lemma product_rev: "itertools_product (map rev pls) = rev (itertools_product pls)"
  by (induction pls) (simp_all add: rev_concat rev_map comp_def)

lemma product_first:
  "\<forall>p \<in> set pls. p \<noteq> [] \<Longrightarrow> \<exists>rest. itertools_product pls = map hd pls # rest"
proof (induction pls)
  case Nil
  show ?case by simp
next
  case (Cons p ps)
  then obtain rest where r: "itertools_product ps = map hd ps # rest" by auto
  from Cons.prems obtain a q where p: "p = a # q" by (cases p) auto
  show ?case by (simp add: p r)
qed

lemma desc_not_asc: "str ''desc'' \<noteq> str ''asc''"
  by (simp add: str_def)

lemma char_sets_desc: "char_sets pat (str ''desc'') = map rev (char_sets pat (str ''asc''))"
  by (simp add: char_sets_def desc_not_asc split: option.splits)

text \<open>
  C6. In descending order every symbolic token's character set is reversed and every
  literal token is left as it is; the descending expansion is the product of these sets
  and is the ascending expansion read backwards. The first ascending candidate takes the
  first character of each token's set, the first descending candidate the last one; for
  the pattern "A1" these are "A0" and "Z9".
\<close>

theorem descending_reverses_symbolic_sets:
  "char_sets pat (str ''asc'')
     = map (\<lambda>char. case PATTERN_CHARSETS char of None \<Rightarrow> [char] | Some cs \<Rightarrow> cs) pat
   \<and> char_sets pat (str ''desc'')
     = map (\<lambda>char. case PATTERN_CHARSETS char of None \<Rightarrow> [char] | Some cs \<Rightarrow> rev cs) pat
   \<and> items (generate_from_pattern pat (str ''desc''))
     = itertools_product (char_sets pat (str ''desc''))
   \<and> items (generate_from_pattern pat (str ''desc''))
     = rev (items (generate_from_pattern pat (str ''asc'')))
   \<and> (\<exists>rest. items (generate_from_pattern pat (str ''asc''))
         = map (\<lambda>char. case PATTERN_CHARSETS char of None \<Rightarrow> char | Some cs \<Rightarrow> hd cs) pat # rest)
   \<and> (\<exists>rest. items (generate_from_pattern pat (str ''desc''))
         = map (\<lambda>char. case PATTERN_CHARSETS char of None \<Rightarrow> char | Some cs \<Rightarrow> last cs) pat # rest)
   \<and> (\<exists>rest. items (generate_from_pattern (str ''A1'') (str ''asc'')) = str ''A0'' # rest)
   \<and> (\<exists>rest. items (generate_from_pattern (str ''A1'') (str ''desc'')) = str ''Z9'' # rest)"
proof -
  let ?asc = "str ''asc''" and ?desc = "str ''desc''"
  have a: "char_sets pat ?asc
     = map (\<lambda>char. case PATTERN_CHARSETS char of None \<Rightarrow> [char] | Some cs \<Rightarrow> cs) pat"
    by (simp add: char_sets_def split: option.splits)
  have d: "char_sets pat ?desc
     = map (\<lambda>char. case PATTERN_CHARSETS char of None \<Rightarrow> [char] | Some cs \<Rightarrow> rev cs) pat"
    by (simp add: char_sets_def desc_not_asc split: option.splits)
  have p: "items (generate_from_pattern pat ?desc) = itertools_product (char_sets pat ?desc)"
    by (rule items_generate_from_pattern)
  have r: "items (generate_from_pattern pat ?desc) = rev (items (generate_from_pattern pat ?asc))"
    by (simp add: items_generate_from_pattern char_sets_desc product_rev)
  have first: "\<exists>rest. items (generate_from_pattern q ord) = map hd (char_sets q ord) # rest"
    for q ord
    unfolding items_generate_from_pattern using char_sets_nonempty by (rule product_first)
  have ha: "map hd (char_sets pat ?asc)
      = map (\<lambda>char. case PATTERN_CHARSETS char of None \<Rightarrow> char | Some cs \<Rightarrow> hd cs) pat"
    by (simp add: a comp_def split: option.splits)
  have hd: "map hd (char_sets pat ?desc)
      = map (\<lambda>char. case PATTERN_CHARSETS char of None \<Rightarrow> char | Some cs \<Rightarrow> last cs) pat"
    using PATTERN_CHARSETS_nonempty by (auto simp: d comp_def hd_rev split: option.splits)
  have fa: "\<exists>rest. items (generate_from_pattern pat ?asc)
         = map (\<lambda>char. case PATTERN_CHARSETS char of None \<Rightarrow> char | Some cs \<Rightarrow> hd cs) pat # rest"
    using first[of pat ?asc] by (simp only: ha)
  have fd: "\<exists>rest. items (generate_from_pattern pat ?desc)
         = map (\<lambda>char. case PATTERN_CHARSETS char of None \<Rightarrow> char | Some cs \<Rightarrow> last cs) pat # rest"
    using first[of pat ?desc] by (simp only: hd)
  have ea: "\<exists>rest. items (generate_from_pattern (str ''A1'') ?asc) = str ''A0'' # rest"
    using first[of "str ''A1''" ?asc]
    by (simp add: char_sets_def PATTERN_CHARSETS_def ascii_uppercase_def digits_def str_def)
  have ed: "\<exists>rest. items (generate_from_pattern (str ''A1'') ?desc) = str ''Z9'' # rest"
    using first[of "str ''A1''" ?desc]
    by (simp add: char_sets_def PATTERN_CHARSETS_def ascii_uppercase_def digits_def str_def)
  from a d p r fa fd ea ed show ?thesis by blast
qed

theorem descending_reverses_symbolic_sets_witness:
  "items (generate_from_pattern (str ''x1'') (str ''desc''))
     = rev (items (generate_from_pattern (str ''x1'') (str ''asc'')))
   \<and> char_sets (str ''x1'') (str ''desc'') = [str ''x'', rev digits]"
proof -
  note inst = descending_reverses_symbolic_sets[of "str ''x1''"]
  from inst have a: "items (generate_from_pattern (str ''x1'') (str ''desc''))
     = rev (items (generate_from_pattern (str ''x1'') (str ''asc'')))"
    by blast
  have b: "char_sets (str ''x1'') (str ''desc'') = [str ''x'', rev digits]"
    using inst[THEN conjunct2, THEN conjunct1] by (simp add: PATTERN_CHARSETS_def str_def)
  show ?thesis by (intro conjI a b)
qed

subsection \<open>Seed variants\<close>

lemma options_plain:
  assumes "plain_char U c"
  shows "\<exists>opts. options U c = Inr opts \<and> [c] \<in> set opts \<and> (\<forall>opt \<in> set opts. length opt = 1)"
  using assms
  by (auto simp: plain_char_def options_def Let_def str_digit_def iter_str_def split: option.splits)

lemma pools_plain:
  assumes "\<forall>c \<in> set sd. plain_char U c"
  shows "\<exists>ps. pools U sd = Inr ps
           \<and> list_all2 (\<lambda>c pool. [c] \<in> set pool \<and> (\<forall>opt \<in> set pool. length opt = 1)) sd ps"
  using assms
proof (induction sd)
  case Nil
  show ?case by simp
next
  case (Cons c sd)
  then obtain ps where ps: "pools U sd = Inr ps"
      "list_all2 (\<lambda>c pool. [c] \<in> set pool \<and> (\<forall>opt \<in> set pool. length opt = 1)) sd ps"
    by auto
  from Cons.prems obtain opts where o: "options U c = Inr opts" "[c] \<in> set opts"
      "\<forall>opt \<in> set opts. length opt = 1"
    using options_plain[of U c] by auto
  show ?case using ps o by simp
qed

lemma join_length:
  "list_all2 (\<lambda>opt pool. opt \<in> set pool) t ps \<Longrightarrow>
   list_all2 (\<lambda>c pool. [c] \<in> set pool \<and> (\<forall>opt \<in> set pool. length opt = 1)) sd ps \<Longrightarrow>
   length (join t) = length sd"
proof (induction ps arbitrary: t sd)
  case Nil
  then show ?case by (simp add: join_def)
next
  case (Cons p ps)
  from Cons.prems(1) obtain a u where t: "t = a # u" "a \<in> set p"
      "list_all2 (\<lambda>opt pool. opt \<in> set pool) u ps"
    by (auto simp: list_all2_Cons2)
  from Cons.prems(2) obtain c s where s: "sd = c # s" "\<forall>opt \<in> set p. length opt = 1"
      "list_all2 (\<lambda>c pool. [c] \<in> set pool \<and> (\<forall>opt \<in> set pool. length opt = 1)) s ps"
    by (auto simp: list_all2_Cons2)
  have "length (join u) = length s" using Cons.IH[OF t(3) s(3)] .
  with t s show ?case by (simp add: join_def)
qed

lemma seed_in_product:
  "list_all2 (\<lambda>c pool. [c] \<in> set pool \<and> Q pool) sd ps \<Longrightarrow>
   list_all2 (\<lambda>opt pool. opt \<in> set pool) (iter_str sd) ps"
  by (induction sd ps rule: list_all2_induct) (simp_all add: iter_str_def)

lemma join_iter_str: "join (iter_str s) = s"
  by (induction s) (simp_all add: join_def iter_str_def)

text \<open>
  C9 (amended). For every seed in which each alphabetic character has a one-character
  case swap and each character that counts as a digit is accepted by \<open>int\<close>, the
  uncapped seed-variant generator finishes without an exception, its output contains the
  seed, and every candidate has the length of the seed.
\<close>

theorem candidate_variants_plain_seed:
  assumes "\<forall>c \<in> set sd. (isalpha U c \<longrightarrow> length (swapcase U c) = 1)
                          \<and> (isdigit U c \<longrightarrow> py_int U c \<noteq> None)"
  shows "raised (candidate_variants U sd) = None
       \<and> sd \<in> set (items (candidate_variants U sd))
       \<and> (\<forall>candidate \<in> set (items (candidate_variants U sd)). length candidate = length sd)"
proof -
  from assms have "\<forall>c \<in> set sd. plain_char U c" by (simp add: plain_char_def)
  then obtain ps where ps: "pools U sd = Inr ps"
      "list_all2 (\<lambda>c pool. [c] \<in> set pool \<and> (\<forall>opt \<in> set pool. length opt = 1)) sd ps"
    using pools_plain by blast
  have cv: "candidate_variants U sd = yield_all (map join (itertools_product ps))"
    by (simp add: candidate_variants_def ps(1))
  have r: "raised (candidate_variants U sd) = None"
    by (simp add: cv raised_yield_all)
  have "iter_str sd \<in> set (itertools_product ps)"
    using seed_in_product[OF ps(2)] by (simp add: product_member)
  then have "join (iter_str sd) \<in> set (items (candidate_variants U sd))"
    by (simp add: cv items_yield_all)
  then have m: "sd \<in> set (items (candidate_variants U sd))"
    by (simp add: join_iter_str)
  have l: "\<forall>candidate \<in> set (items (candidate_variants U sd)). length candidate = length sd"
    using join_length[OF _ ps(2)] by (auto simp: cv items_yield_all product_member)
  from r m l show ?thesis by blast
qed

text \<open>Every ASCII character is such a character.\<close>

lemma ascii_plain: "c < 128 \<Longrightarrow> plain_char latin1 c"
  by (simp add: plain_char_def latin1_def)

theorem candidate_variants_plain_seed_witness:
  "list_all (plain_char latin1) (str ''aB3'')
   \<and> raised (candidate_variants latin1 (str ''aB3'')) = None
   \<and> str ''aB3'' \<in> set (items (candidate_variants latin1 (str ''aB3'')))
   \<and> list_all (\<lambda>candidate. length candidate = 3) (items (candidate_variants latin1 (str ''aB3'')))"
proof -
  have h: "\<forall>c \<in> set (str ''aB3''). (isalpha latin1 c \<longrightarrow> length (swapcase latin1 c) = 1)
                          \<and> (isdigit latin1 c \<longrightarrow> py_int latin1 c \<noteq> None)"
    by (simp add: str_def latin1_def)
  then have p: "list_all (plain_char latin1) (str ''aB3'')"
    by (simp add: list_all_iff plain_char_def)
  show ?thesis using candidate_variants_plain_seed[OF h] p by (simp add: list_all_iff str_def)
qed

text \<open>
  C9 as stated fails: the seed consisting of U+00DF (sharp s) has the two-character
  variant "SS", and the seed consisting of U+00B2 (superscript two) makes the generator raise
  \<open>ValueError\<close> before it yields the seed.
\<close>

theorem candidate_variants_sharp_s:
  "items (candidate_variants latin1 [223]) = [[83, 83], [223]]
   \<and> length [83, 83 :: nat] \<noteq> length [223 :: nat]
   \<and> candidate_variants latin1 [178] = Raise ValueError"
  by (simp add: candidate_variants_def options_def latin1_def latin1_upper_def latin1_lower_def
      substitutions_def iter_str_def join_def)

section \<open>The search loop\<close>

lemma seen_log_attempt [simp]: "seen (log_attempt st p) = seen st"
  by (simp add: log_attempt_def Let_def)

lemma tried_log_attempt [simp]: "tried (log_attempt st p) = tried st"
  by (simp add: log_attempt_def Let_def)

lemma attempted_log_attempt [simp]: "attempted (log_attempt st p) = Suc (attempted st)"
  by (simp add: log_attempt_def Let_def)

lemma for_stream_chain: "for_stream t gs st = for_password t (chain gs) st"
proof (induction gs arbitrary: st rule: chain.induct)
  case 1
  show ?case by simp
next
  case (2 gs)
  then show ?case by simp
next
  case (3 e gs)
  show ?case by simp
next
  case (4 x g gs)
  show ?case
  proof (cases "x \<in> seen st")
    case True
    then show ?thesis using "4.IH"[of st] by simp
  next
    case False
    let ?st1 = "log_attempt (st\<lparr>seen := insert x (seen st)\<rparr>) x"
    let ?st2 = "?st1\<lparr>tried := tried ?st1 @ [x]\<rparr>"
    show ?thesis
    proof (cases "t x")
      case (Inl e)
      with False show ?thesis by (simp add: Let_def)
    next
      case (Inr b)
      with False show ?thesis using "4.IH"[of ?st2] by (cases b) (simp_all add: Let_def)
    qed
  qed
qed

lemma fst_for_password:
  "\<forall>p \<in> seen st. t p = Inr False \<Longrightarrow>
   fst (for_password t g st) = verdict t (items g) (raised g)"
proof (induction g arbitrary: st)
  case Done
  show ?case by (simp add: verdict_def)
next
  case (Raise e)
  show ?case by (simp add: verdict_def)
next
  case (Yield x g)
  show ?case
  proof (cases "x \<in> seen st")
    case True
    with Yield.prems have "t x = Inr False" by simp
    with True Yield.IH[OF Yield.prems] show ?thesis by (simp add: verdict_def)
  next
    case False
    let ?st1 = "log_attempt (st\<lparr>seen := insert x (seen st)\<rparr>) x"
    let ?st2 = "?st1\<lparr>tried := tried ?st1 @ [x]\<rparr>"
    show ?thesis
    proof (cases "t x")
      case (Inl e)
      with False show ?thesis by (simp add: Let_def verdict_def)
    next
      case (Inr b)
      show ?thesis
      proof (cases b)
        case True
        with Inr False show ?thesis by (simp add: Let_def verdict_def)
      next
        case b: False
        with Inr Yield.prems have "\<forall>p \<in> seen ?st2. t p = Inr False" by simp
        from Yield.IH[OF this] Inr b False show ?thesis by (simp add: Let_def verdict_def)
      qed
    qed
  qed
qed

lemma fst_crack_target:
  "fst (crack_target U fs T tt args)
     = verdict (\<lambda>p. try_password T p tt) (items (chain (candidate_streams U fs args)))
         (raised (chain (candidate_streams U fs args)))"
  by (simp add: crack_target_def for_stream_chain fst_for_password start_def)

lemma verdict_found:
  "cands = pre @ p # post \<Longrightarrow> \<forall>q \<in> set pre. t q = Inr False \<Longrightarrow> t p = Inr True \<Longrightarrow>
   verdict t cands ending = Inr (Some p)"
  by (induction pre arbitrary: cands) (auto simp: verdict_def)

lemma verdict_raise:
  "cands = pre @ p # post \<Longrightarrow> \<forall>q \<in> set pre. t q = Inr False \<Longrightarrow> t p = Inl e \<Longrightarrow>
   verdict t cands ending = Inl e"
  by (induction pre arbitrary: cands) (auto simp: verdict_def)

lemma verdict_exhausted:
  "\<forall>q \<in> set cands. t q = Inr False \<Longrightarrow> verdict t cands None = Inr None"
  by (induction cands) (auto simp: verdict_def)

lemma verdict_found_only:
  assumes "verdict t cands ending = Inr (Some p)"
  shows "\<exists>pre post. cands = pre @ p # post \<and> (\<forall>q \<in> set pre. t q = Inr False) \<and> t p = Inr True"
proof -
  from assms obtain c where f: "find (\<lambda>p. t p \<noteq> Inr False) cands = Some c"
    by (auto simp: verdict_def split: option.splits)
  then obtain i where i: "i < length cands" "t (cands ! i) \<noteq> Inr False" "c = cands ! i"
      "\<forall>j<i. \<not> t (cands ! j) \<noteq> Inr False"
    by (auto simp: find_Some_iff)
  from assms f have cp: "c = p"
    by (auto simp: verdict_def split: sum.splits)
  from assms f i(2,3) have tp: "t p = Inr True"
    by (auto simp: verdict_def split: sum.splits)
  have "cands = take i cands @ cands ! i # drop (Suc i) cands"
    using i(1) by (simp add: id_take_nth_drop)
  moreover have "\<forall>q \<in> set (take i cands). t q = Inr False"
    using i(1,4) by (auto simp: in_set_conv_nth)
  ultimately show ?thesis using cp tp i(3) by blast
qed

lemma items_chain_append:
  "raised (chain gs) = None \<Longrightarrow> items (chain (gs @ hs)) = items (chain gs) @ items (chain hs)"
  by (induction gs rule: chain.induct) simp_all

lemma raised_chain_append:
  "raised (chain (gs @ hs)) = (case raised (chain gs) of None \<Rightarrow> raised (chain hs) | Some e \<Rightarrow> Some e)"
  by (induction gs rule: chain.induct) simp_all

lemma sample_candidates:
  "candidate_streams latin1 sample_fs sample_args
     = [Yield (str ''A'') (Yield (str ''a'') Done), Yield (str ''a'') (Yield (str ''b'') Done)]"
  by (simp add: candidate_streams_def seed_streams_def pattern_streams_def pattern_spec_def
      truthy_def length_streams_def wordlist_streams_def exists_path_def read_wordlist_def
      strip_def limited_def candidate_variants_def options_def substitutions_def
      latin1_def latin1_upper_def latin1_lower_def sample_args_def sample_fs_def
      str_def iter_str_def join_def)

text \<open>
  C1. Let the candidates be those of the streams in the order in which \<open>crack_target\<close>
  builds them: the seed variants, then the pattern expansion or else the fixed-length
  enumeration, then the wordlist. If the tester answers true on a candidate and false on
  every candidate before it, the search returns that candidate; a returned password is
  always such a first candidate; and if the tester answers false on every candidate and
  no stream raises, the search returns \<open>None\<close>.
\<close>

theorem crack_target_first_match:
  "(\<forall>pre p post.
       items (chain (candidate_streams U fs args)) = pre @ p # post
       \<and> (\<forall>q \<in> set pre. try_password T q tt = Inr False)
       \<and> try_password T p tt = Inr True
       \<longrightarrow> fst (crack_target U fs T tt args) = Inr (Some p))
   \<and> (\<forall>p. fst (crack_target U fs T tt args) = Inr (Some p)
       \<longrightarrow> (\<exists>pre post. items (chain (candidate_streams U fs args)) = pre @ p # post
              \<and> (\<forall>q \<in> set pre. try_password T q tt = Inr False)
              \<and> try_password T p tt = Inr True))
   \<and> ((\<forall>q \<in> set (items (chain (candidate_streams U fs args))). try_password T q tt = Inr False)
       \<and> raised (chain (candidate_streams U fs args)) = None
       \<longrightarrow> fst (crack_target U fs T tt args) = Inr None)
   \<and> (raised (chain (candidate_streams U fs args)) = None
       \<longrightarrow> items (chain (candidate_streams U fs args))
           = items (chain (seed_streams U args)) @ items (chain (pattern_streams args))
             @ items (chain (wordlist_streams U fs args)))"
proof -
  let ?t = "\<lambda>p. try_password T p tt"
  let ?g = "chain (candidate_streams U fs args)"
  have a: "\<forall>pre p post. items ?g = pre @ p # post \<and> (\<forall>q \<in> set pre. ?t q = Inr False)
             \<and> ?t p = Inr True \<longrightarrow> fst (crack_target U fs T tt args) = Inr (Some p)"
    using verdict_found[of "items ?g" _ _ _ ?t] by (simp add: fst_crack_target)
  have b: "\<forall>p. fst (crack_target U fs T tt args) = Inr (Some p)
       \<longrightarrow> (\<exists>pre post. items ?g = pre @ p # post \<and> (\<forall>q \<in> set pre. ?t q = Inr False)
              \<and> ?t p = Inr True)"
    using verdict_found_only[of ?t "items ?g" "raised ?g"] by (simp add: fst_crack_target)
  have c: "(\<forall>q \<in> set (items ?g). ?t q = Inr False) \<and> raised ?g = None
       \<longrightarrow> fst (crack_target U fs T tt args) = Inr None"
    using verdict_exhausted[of "items ?g" ?t] by (simp add: fst_crack_target)
  have d: "raised ?g = None \<longrightarrow> items ?g
           = items (chain (seed_streams U args)) @ items (chain (pattern_streams args))
             @ items (chain (wordlist_streams U fs args))"
  proof
    assume r: "raised ?g = None"
    then have r1: "raised (chain (seed_streams U args)) = None"
      by (simp add: candidate_streams_def raised_chain_append split: option.splits)
    with r have r2: "raised (chain (pattern_streams args)) = None"
      by (simp add: candidate_streams_def raised_chain_append split: option.splits)
    show "items ?g = items (chain (seed_streams U args)) @ items (chain (pattern_streams args))
             @ items (chain (wordlist_streams U fs args))"
      by (simp add: candidate_streams_def items_chain_append r1 r2)
  qed
  from a b c d show ?thesis by blast
qed

theorem crack_target_first_match_witness:
  "items (chain (candidate_streams latin1 sample_fs sample_args))
     = [str ''A''] @ str ''a'' # [str ''a'', str ''b'']
   \<and> try_password sample_tools (str ''A'') (str ''zip'') = Inr False
   \<and> try_password sample_tools (str ''a'') (str ''zip'') = Inr True
   \<and> fst (crack_target latin1 sample_fs sample_tools (str ''zip'') sample_args) = Inr (Some (str ''a''))
   \<and> list_all (\<lambda>q. try_password sample_tools q (str ''pdf'') = Inr False)
         (items (chain (candidate_streams latin1 sample_fs sample_args)))
   \<and> raised (chain (candidate_streams latin1 sample_fs sample_args)) = None
   \<and> fst (crack_target latin1 sample_fs sample_tools (str ''pdf'') sample_args) = Inr None"
proof -
  have c: "items (chain (candidate_streams latin1 sample_fs sample_args))
     = [str ''A''] @ str ''a'' # [str ''a'', str ''b'']"
    by (simp add: sample_candidates)
  have r: "raised (chain (candidate_streams latin1 sample_fs sample_args)) = None"
    by (simp add: sample_candidates)
  have f1: "try_password sample_tools (str ''A'') (str ''zip'') = Inr False"
    by (simp add: try_password_def try_zip_password_def sample_tools_def str_def)
  then have f: "\<forall>q \<in> set [str ''A'']. try_password sample_tools q (str ''zip'') = Inr False"
    by simp
  have t: "try_password sample_tools (str ''a'') (str ''zip'') = Inr True"
    by (simp add: try_password_def try_zip_password_def sample_tools_def str_def)
  have p: "\<forall>q \<in> set (items (chain (candidate_streams latin1 sample_fs sample_args))).
         try_password sample_tools q (str ''pdf'') = Inr False"
    by (simp add: try_password_def try_pdf_password_def sample_tools_def)
  then have pl: "list_all (\<lambda>q. try_password sample_tools q (str ''pdf'') = Inr False)
         (items (chain (candidate_streams latin1 sample_fs sample_args)))"
    by (simp only: list_all_iff)
  note thm1 = crack_target_first_match[of latin1 sample_fs sample_args sample_tools "str ''zip''"]
  note thm2 = crack_target_first_match[of latin1 sample_fs sample_args sample_tools "str ''pdf''"]
  have found: "fst (crack_target latin1 sample_fs sample_tools (str ''zip'') sample_args)
                 = Inr (Some (str ''a''))"
    using thm1 c f t by blast
  have none: "fst (crack_target latin1 sample_fs sample_tools (str ''pdf'') sample_args) = Inr None"
    using thm2 p r by blast
  show ?thesis by (intro conjI c f1 t found pl r none)
qed

subsection \<open>Deduplication\<close>

lemma first_occurrences_set: "set (first_occurrences xs) = set xs"
  by (induction xs rule: first_occurrences.induct) auto

lemma first_occurrences_distinct: "distinct (first_occurrences xs)"
  by (induction xs rule: first_occurrences.induct) (auto simp: first_occurrences_set)

lemma filter_unseen_insert:
  "filter (\<lambda>y. y \<noteq> x) (filter (\<lambda>p. p \<notin> S) xs) = filter (\<lambda>p. p \<notin> insert x S) xs"
  by (induction xs) auto

lemma for_password_consistent:
  "seen st = set (tried st) \<Longrightarrow> distinct (tried st) \<Longrightarrow> attempted st = length (tried st) \<Longrightarrow>
   seen (snd (for_password t g st)) = set (tried (snd (for_password t g st)))
   \<and> distinct (tried (snd (for_password t g st)))
   \<and> attempted (snd (for_password t g st)) = length (tried (snd (for_password t g st)))"
proof (induction g arbitrary: st)
  case Done
  then show ?case by simp
next
  case (Raise e)
  then show ?case by simp
next
  case (Yield x g)
  show ?case
  proof (cases "x \<in> seen st")
    case True
    then show ?thesis using Yield.IH[OF Yield.prems] by simp
  next
    case False
    let ?st1 = "log_attempt (st\<lparr>seen := insert x (seen st)\<rparr>) x"
    let ?st2 = "?st1\<lparr>tried := tried ?st1 @ [x]\<rparr>"
    have s2: "seen ?st2 = set (tried ?st2)" "distinct (tried ?st2)"
        "attempted ?st2 = length (tried ?st2)"
      using False Yield.prems by auto
    show ?thesis
    proof (cases "t x")
      case (Inl e)
      with False s2 show ?thesis by (simp add: Let_def)
    next
      case (Inr b)
      with False s2 Yield.IH[OF s2] show ?thesis by (cases b) (simp_all add: Let_def)
    qed
  qed
qed

lemma for_password_tried:
  "seen st = set (tried st) \<Longrightarrow>
   \<exists>k. tried (snd (for_password t g st))
        = tried st @ take k (first_occurrences (filter (\<lambda>p. p \<notin> seen st) (items g)))"
proof (induction g arbitrary: st)
  case Done
  then show ?case by simp
next
  case (Raise e)
  then show ?case by simp
next
  case (Yield x g)
  show ?case
  proof (cases "x \<in> seen st")
    case True
    then show ?thesis using Yield.IH[OF Yield.prems] by simp
  next
    case False
    let ?st1 = "log_attempt (st\<lparr>seen := insert x (seen st)\<rparr>) x"
    let ?st2 = "?st1\<lparr>tried := tried ?st1 @ [x]\<rparr>"
    let ?rest = "first_occurrences (filter (\<lambda>p. p \<notin> insert x (seen st)) (items g))"
    have fo: "first_occurrences (filter (\<lambda>p. p \<notin> seen st) (items (Yield x g))) = x # ?rest"
      using False by (simp add: filter_unseen_insert del: filter_filter)
    have s2: "seen ?st2 = set (tried ?st2)" using Yield.prems by simp
    have stop: "tried ?st2 = tried st @ take 1 (x # ?rest)" by simp
    show ?thesis
    proof (cases "t x")
      case (Inl e)
      with False have "tried (snd (for_password t (Yield x g) st)) = tried ?st2"
        by (simp add: Let_def)
      with stop show ?thesis unfolding fo by (intro exI[of _ 1]) simp
    next
      case (Inr b)
      show ?thesis
      proof (cases b)
        case True
        with Inr False have "tried (snd (for_password t (Yield x g) st)) = tried ?st2"
          by (simp add: Let_def)
        with stop show ?thesis unfolding fo by (intro exI[of _ 1]) simp
      next
        case b: False
        from Yield.IH[OF s2] obtain k where
          k: "tried (snd (for_password t g ?st2)) = tried ?st2 @ take k ?rest"
          by auto
        from Inr b False have "tried (snd (for_password t (Yield x g) st))
            = tried (snd (for_password t g ?st2))"
          by (simp add: Let_def)
        with k have "tried (snd (for_password t (Yield x g) st))
            = tried st @ take (Suc k) (x # ?rest)"
          by simp
        then show ?thesis unfolding fo by (intro exI[of _ "Suc k"])
      qed
    qed
  qed
qed

lemma for_password_exhausted_tried:
  "seen st = set (tried st) \<Longrightarrow> fst (for_password t g st) = Inr None \<Longrightarrow>
   tried (snd (for_password t g st))
     = tried st @ first_occurrences (filter (\<lambda>p. p \<notin> seen st) (items g))"
proof (induction g arbitrary: st)
  case Done
  then show ?case by simp
next
  case (Raise e)
  then show ?case by simp
next
  case (Yield x g)
  show ?case
  proof (cases "x \<in> seen st")
    case True
    then show ?thesis using Yield.IH[of st] Yield.prems by simp
  next
    case False
    let ?st1 = "log_attempt (st\<lparr>seen := insert x (seen st)\<rparr>) x"
    let ?st2 = "?st1\<lparr>tried := tried ?st1 @ [x]\<rparr>"
    have s2: "seen ?st2 = set (tried ?st2)" using Yield.prems by simp
    from Yield.prems(2) False have tx: "t x = Inr False"
      by (auto simp: Let_def split: sum.splits bool.splits)
    with False have step: "for_password t (Yield x g) st = for_password t g ?st2"
      by (simp add: Let_def)
    with Yield.prems(2) have "fst (for_password t g ?st2) = Inr None" by simp
    from Yield.IH[OF s2 this] show ?thesis
      unfolding step using False
      by (simp add: filter_unseen_insert del: filter_filter for_password.simps)
  qed
qed

text \<open>
  C2. In every run the passwords handed to the tester are pairwise different: they are an
  initial part of the candidates of all streams taken together with every repetition of
  an earlier candidate left out, whichever stream the earlier occurrence came from. The set
  \<open>seen\<close> holds exactly the passwords tested so far and \<open>attempted\<close> counts them. When
  the search ends with \<open>None\<close>, every distinct candidate has been tested exactly once.
\<close>

theorem tester_called_once_per_candidate:
  "distinct (tried (snd (crack_target U fs T tt args)))
   \<and> (\<exists>k. tried (snd (crack_target U fs T tt args))
          = take k (first_occurrences (items (chain (candidate_streams U fs args)))))
   \<and> seen (snd (crack_target U fs T tt args)) = set (tried (snd (crack_target U fs T tt args)))
   \<and> attempted (snd (crack_target U fs T tt args)) = length (tried (snd (crack_target U fs T tt args)))
   \<and> (fst (crack_target U fs T tt args) = Inr None
        \<longrightarrow> tried (snd (crack_target U fs T tt args))
            = first_occurrences (items (chain (candidate_streams U fs args))))
   \<and> distinct (first_occurrences (items (chain (candidate_streams U fs args))))
   \<and> set (first_occurrences (items (chain (candidate_streams U fs args))))
       = set (items (chain (candidate_streams U fs args)))"
proof -
  let ?t = "\<lambda>p. try_password T p tt"
  let ?g = "chain (candidate_streams U fs args)"
  let ?r = "crack_target U fs T tt args"
  have run: "?r = for_password ?t ?g start"
    by (simp add: crack_target_def for_stream_chain)
  have s: "seen start = set (tried start)" "distinct (tried start)"
      "attempted start = length (tried start)"
    by (simp_all add: start_def)
  have c: "seen (snd ?r) = set (tried (snd ?r)) \<and> distinct (tried (snd ?r))
     \<and> attempted (snd ?r) = length (tried (snd ?r))"
    unfolding run using s by (rule for_password_consistent)
  have p: "\<exists>k. tried (snd ?r) = take k (first_occurrences (items ?g))"
    unfolding run using for_password_tried[OF s(1), of ?t ?g] by (simp add: start_def)
  have e: "fst ?r = Inr None \<longrightarrow> tried (snd ?r) = first_occurrences (items ?g)"
    unfolding run using for_password_exhausted_tried[OF s(1), of ?t ?g] by (simp add: start_def)
  have d: "distinct (first_occurrences (items ?g))"
    by (rule first_occurrences_distinct)
  have m: "set (first_occurrences (items ?g)) = set (items ?g)"
    by (rule first_occurrences_set)
  from c have c1: "distinct (tried (snd ?r))" and c2: "seen (snd ?r) = set (tried (snd ?r))"
    and c3: "attempted (snd ?r) = length (tried (snd ?r))"
    by simp_all
  show ?thesis by (intro conjI c1 p c2 c3 e d m)
qed

theorem tester_called_once_per_candidate_witness:
  "fst (crack_target latin1 sample_fs sample_tools (str ''pdf'') sample_args) = Inr None
   \<and> tried (snd (crack_target latin1 sample_fs sample_tools (str ''pdf'') sample_args))
       = [str ''A'', str ''a'', str ''b'']
   \<and> items (chain (candidate_streams latin1 sample_fs sample_args))
       = [str ''A'', str ''a'', str ''a'', str ''b'']"
proof -
  have c: "items (chain (candidate_streams latin1 sample_fs sample_args))
       = [str ''A'', str ''a'', str ''a'', str ''b'']"
    by (simp add: sample_candidates)
  have n: "fst (crack_target latin1 sample_fs sample_tools (str ''pdf'') sample_args) = Inr None"
    by (simp add: fst_crack_target sample_candidates verdict_def try_password_def
        try_pdf_password_def sample_tools_def)
  have f: "first_occurrences [str ''A'', str ''a'', str ''a'', str ''b'']
       = [str ''A'', str ''a'', str ''b'']"
    by (simp add: str_def)
  note inst = tester_called_once_per_candidate[of latin1 sample_fs sample_tools "str ''pdf''" sample_args]
  from inst n have "tried (snd (crack_target latin1 sample_fs sample_tools (str ''pdf'') sample_args))
       = first_occurrences (items (chain (candidate_streams latin1 sample_fs sample_args)))"
    by (elim conjE) (rule mp)
  then have t: "tried (snd (crack_target latin1 sample_fs sample_tools (str ''pdf'') sample_args))
       = [str ''A'', str ''a'', str ''b'']"
    by (simp only: c f)
  from n t c show ?thesis by (intro conjI)
qed

subsection \<open>Caps\<close>


lemma raised_limited_from:
  "raised (limited_from l i g) = (if nat (l - i) < length (items g) then None else raised g)"
proof (induction g arbitrary: i)
  case Done
  show ?case by simp
next
  case (Raise e)
  show ?case by simp
next
  case (Yield x g)
  show ?case
  proof (cases "i \<ge> l")
    case True
    then show ?thesis by simp
  next
    case False
    then have "nat (l - i) = Suc (nat (l - (i + 1)))" by simp
    with False Yield.IH[of "i + 1"] show ?thesis by simp
  qed
qed






subsection \<open>Missing tools\<close>

lemma type_names_distinct:
  "str ''rar'' \<noteq> str ''pdf''" "str ''rar'' \<noteq> str ''zip''"
  "str ''7z'' \<noteq> str ''pdf''" "str ''7z'' \<noteq> str ''zip''" "str ''7z'' \<noteq> str ''rar''"
  "str ''iso'' \<noteq> str ''pdf''" "str ''iso'' \<noteq> str ''zip''" "str ''iso'' \<noteq> str ''rar''"
  "str ''iso'' \<noteq> str ''7z''"
  by (simp_all add: str_def)

lemma missing_tool_raises:
  "missing_tool_detected T tt p \<Longrightarrow> try_password T p tt = Inl RuntimeError"
  by (auto simp: missing_tool_detected_def try_password_def try_rar_password_def
      try_7z_password_def try_iso_password_def try_iso_hdiutil_def try_iso_with_7z_cli_def
      type_names_distinct split: if_splits option.splits)

lemma rar_raises_detected:
  "try_rar_password T p = Inl RuntimeError \<Longrightarrow> missing_tool_detected T (str ''rar'') p"
  by (auto simp: missing_tool_detected_def try_rar_password_def
      split: option.splits rar_outcome.splits)

lemma sevenzip_raises_detected:
  "try_7z_password T p = Inl RuntimeError \<Longrightarrow> missing_tool_detected T (str ''7z'') p"
  by (auto simp: missing_tool_detected_def try_7z_password_def type_names_distinct
      split: option.splits sevenzip_outcome.splits)

lemma iso_raises_detected:
  "try_iso_password T p = Inl RuntimeError \<Longrightarrow> missing_tool_detected T (str ''iso'') p"
  by (auto simp: missing_tool_detected_def try_iso_password_def try_iso_hdiutil_def
      try_iso_with_7z_cli_def type_names_distinct split: if_splits process_outcome.splits)

lemma pdf_never_raises: "try_pdf_password T p \<noteq> Inl e"
  by (simp add: try_pdf_password_def split: pdf_outcome.splits)

lemma zip_never_raises: "try_zip_password T p \<noteq> Inl e"
  by (simp add: try_zip_password_def split: zip_outcome.splits)

lemma raises_detected:
  assumes "try_password T p tt = Inl RuntimeError"
  shows "missing_tool_detected T tt p"
proof -
  consider "tt = str ''pdf''" | "tt \<noteq> str ''pdf''" "tt = str ''zip''"
    | "tt \<noteq> str ''pdf''" "tt \<noteq> str ''zip''" "tt = str ''rar''"
    | "tt \<noteq> str ''pdf''" "tt \<noteq> str ''zip''" "tt \<noteq> str ''rar''" "tt = str ''7z''"
    | "tt \<noteq> str ''pdf''" "tt \<noteq> str ''zip''" "tt \<noteq> str ''rar''" "tt \<noteq> str ''7z''"
      "tt = str ''iso''"
    | "tt \<noteq> str ''pdf''" "tt \<noteq> str ''zip''" "tt \<noteq> str ''rar''" "tt \<noteq> str ''7z''"
      "tt \<noteq> str ''iso''"
    by blast
  then show ?thesis
  proof cases
    case 1
    with assms pdf_never_raises[of T p RuntimeError] show ?thesis
      by (simp add: try_password_def)
  next
    case 2
    with assms zip_never_raises[of T p RuntimeError] show ?thesis
      by (simp add: try_password_def)
  next
    case 3
    with assms have "try_rar_password T p = Inl RuntimeError" by (simp add: try_password_def)
    with 3 show ?thesis by (simp add: rar_raises_detected)
  next
    case 4
    with assms have "try_7z_password T p = Inl RuntimeError" by (simp add: try_password_def)
    with 4 show ?thesis by (simp add: sevenzip_raises_detected)
  next
    case 5
    with assms have "try_iso_password T p = Inl RuntimeError" by (simp add: try_password_def)
    with 5 show ?thesis by (simp add: iso_raises_detected)
  next
    case 6
    with assms show ?thesis by (simp add: try_password_def)
  qed
qed

text \<open>
  The PDF and ZIP testers have no case for a missing tool: whatever happens inside the
  library, they answer.
\<close>

lemma pdf_zip_never_raise:
  "try_password T p (str ''pdf'') \<noteq> Inl e \<and> try_password T p (str ''zip'') \<noteq> Inl e"
  by (simp add: try_password_def try_pdf_password_def try_zip_password_def str_def
      split: pdf_outcome.splits zip_outcome.splits)

lemma main_propagates:
  "fst (crack_target U fs T (determine_target_type U sfx (type_arg args)) args) = Inl e \<Longrightarrow>
   main U fs T True sfx args = Inl e"
  by (simp add: main_def Let_def)

text \<open>
  C4 (amended). The tester raises \<open>RuntimeError\<close> instead of answering false exactly in
  the cases in which the source finds a tool missing: the \<open>rarfile\<close> or \<open>py7zr\<close> module
  was not imported, \<open>rarfile\<close> cannot run \<open>unrar\<close>, or the \<open>7z\<close> or \<open>hdiutil\<close>
  executable is not found. If the search reaches a candidate in such a case, every earlier
  candidate having been answered false, \<open>crack_target\<close> ends with that same
  \<open>RuntimeError\<close>, and so does \<open>main\<close>.
\<close>

theorem missing_tool_aborts_search:
  "(try_password T p tt = Inl RuntimeError \<longleftrightarrow> missing_tool_detected T tt p)
   \<and> (\<forall>pre post.
         missing_tool_detected T tt p
         \<and> items (chain (candidate_streams U fs args)) = pre @ p # post
         \<and> (\<forall>q \<in> set pre. try_password T q tt = Inr False)
         \<longrightarrow> fst (crack_target U fs T tt args) = Inl RuntimeError
             \<and> (determine_target_type U sfx (type_arg args) = tt
                  \<longrightarrow> main U fs T True sfx args = Inl RuntimeError))"
proof -
  have a: "try_password T p tt = Inl RuntimeError \<longleftrightarrow> missing_tool_detected T tt p"
    using missing_tool_raises raises_detected by blast
  have b: "fst (crack_target U fs T tt args) = Inl RuntimeError
           \<and> (determine_target_type U sfx (type_arg args) = tt
                \<longrightarrow> main U fs T True sfx args = Inl RuntimeError)"
    if m: "missing_tool_detected T tt p"
      and c: "items (chain (candidate_streams U fs args)) = pre @ p # post"
      and f: "\<forall>q \<in> set pre. try_password T q tt = Inr False" for pre post
  proof -
    have t: "try_password T p tt = Inl RuntimeError"
      using m by (rule missing_tool_raises)
    have r: "fst (crack_target U fs T tt args) = Inl RuntimeError"
      unfolding fst_crack_target using c f t by (rule verdict_raise)
    then show ?thesis using main_propagates[of U fs T sfx args RuntimeError] by auto
  qed
  from a b show ?thesis by blast
qed

theorem missing_tool_aborts_search_witness:
  "missing_tool_detected sample_tools (str ''rar'') (str ''A'')
   \<and> try_password sample_tools (str ''A'') (str ''rar'') = Inl RuntimeError
   \<and> items (chain (candidate_streams latin1 sample_fs sample_args))
       = [] @ str ''A'' # [str ''a'', str ''a'', str ''b'']
   \<and> fst (crack_target latin1 sample_fs sample_tools (str ''rar'') sample_args) = Inl RuntimeError
   \<and> determine_target_type latin1 (str ''.rar'') (type_arg sample_args) = str ''rar''
   \<and> main latin1 sample_fs sample_tools True (str ''.rar'') sample_args = Inl RuntimeError"
proof -
  have m: "missing_tool_detected sample_tools (str ''rar'') (str ''A'')"
    by (simp add: missing_tool_detected_def sample_tools_def)
  have c: "items (chain (candidate_streams latin1 sample_fs sample_args))
       = [] @ str ''A'' # [str ''a'', str ''a'', str ''b'']"
    by (simp add: sample_candidates)
  have d: "determine_target_type latin1 (str ''.rar'') (type_arg sample_args) = str ''rar''"
    by (simp add: determine_target_type_def sample_args_def TARGET_TYPE_MAP_def latin1_def
        latin1_upper_def str_def)
  have e: "\<forall>q \<in> set ([] :: pystr list). try_password sample_tools q (str ''rar'') = Inr False"
    by simp
  note inst = missing_tool_aborts_search[of sample_tools "str ''A''" "str ''rar''"
      latin1 sample_fs sample_args "str ''.rar''"]
  from inst m have t: "try_password sample_tools (str ''A'') (str ''rar'') = Inl RuntimeError"
    by blast
  from inst m c e have r: "fst (crack_target latin1 sample_fs sample_tools (str ''rar'') sample_args)
       = Inl RuntimeError
     \<and> (determine_target_type latin1 (str ''.rar'') (type_arg sample_args) = str ''rar''
          \<longrightarrow> main latin1 sample_fs sample_tools True (str ''.rar'') sample_args = Inl RuntimeError)"
    by blast
  from r d have f: "fst (crack_target latin1 sample_fs sample_tools (str ''rar'') sample_args)
       = Inl RuntimeError"
    and g: "main latin1 sample_fs sample_tools True (str ''.rar'') sample_args = Inl RuntimeError"
    by blast+
  show ?thesis by (intro conjI m t c f d g)
qed

text \<open>
  C4 as stated fails: a failure of the library that has no case of its own is answered
  with false. When the PDF library raises on every call, as a library does that lacks the
  cipher the file needs, \<open>try_pdf_password\<close> answers false each time: the search tests
  every candidate and ends with \<open>None\<close>, and \<open>main\<close> exits with status 1 as after
  wrong passwords. The ZIP tester answers false on every exception, and the 7-Zip tester
  on a \<open>RuntimeError\<close> of its library.
\<close>

theorem library_failure_answered_false:
  "try_password (sample_tools\<lparr>PdfReader := (\<lambda>password. PdfException)\<rparr>) (str ''A'') (str ''pdf'')
     = Inr False
   \<and> crack_target latin1 sample_fs (sample_tools\<lparr>PdfReader := (\<lambda>password. PdfException)\<rparr>)
         (str ''pdf'') sample_args
       = (Inr None,
          \<lparr>seen = {str ''b'', str ''a'', str ''A''}, attempted = 3, progress = [],
           tried = [str ''A'', str ''a'', str ''b'']\<rparr>)
   \<and> main latin1 sample_fs (sample_tools\<lparr>PdfReader := (\<lambda>password. PdfException)\<rparr>) True
         (str ''.pdf'') sample_args = Inr 1
   \<and> try_password (sample_tools\<lparr>ZipFile := (\<lambda>password. ZipException)\<rparr>) (str ''A'') (str ''zip'')
     = Inr False
   \<and> try_password (sample_tools\<lparr>py7zr := Some (\<lambda>password. SevenZipRuntimeError)\<rparr>)
         (str ''A'') (str ''7z'') = Inr False"
proof -
  let ?T = "sample_tools\<lparr>PdfReader := (\<lambda>password. PdfException)\<rparr>"
  have f: "\<And>p. try_password ?T p (str ''pdf'') = Inr False"
    by (simp add: try_password_def try_pdf_password_def)
  have a: "try_password ?T (str ''A'') (str ''pdf'') = Inr False"
    by (rule f)
  have ne: "str ''A'' \<noteq> str ''a''" "str ''b'' \<noteq> str ''a''" "str ''b'' \<noteq> str ''A''"
    by (simp_all add: str_def)
  have run: "crack_target latin1 sample_fs ?T (str ''pdf'') sample_args
      = (Inr None,
         \<lparr>seen = {str ''b'', str ''a'', str ''A''}, attempted = 3, progress = [],
          tried = [str ''A'', str ''a'', str ''b'']\<rparr>)"
    using ne by (simp add: crack_target_def sample_candidates f start_def log_attempt_def Let_def)
  have ta: "type_arg sample_args = None"
    by (simp add: sample_args_def)
  have t: "determine_target_type latin1 (str ''.pdf'') None = str ''pdf''"
    by (simp add: determine_target_type_def TARGET_TYPE_MAP_def latin1_def
        latin1_upper_def str_def)
  have d: "main latin1 sample_fs ?T True (str ''.pdf'') sample_args = Inr 1"
    unfolding main_def Let_def ta t run by simp
  have z: "try_password (sample_tools\<lparr>ZipFile := (\<lambda>password. ZipException)\<rparr>) (str ''A'')
              (str ''zip'') = Inr False"
    by (simp add: try_password_def try_zip_password_def str_def)
  have s: "try_password (sample_tools\<lparr>py7zr := Some (\<lambda>password. SevenZipRuntimeError)\<rparr>)
              (str ''A'') (str ''7z'') = Inr False"
    by (simp add: try_password_def try_7z_password_def str_def)
  show ?thesis by (intro conjI a run d z s)
qed

subsection \<open>Target type\<close>

text \<open>
  C10. When no type is forced (\<open>None\<close> or the empty string), \<open>determine_target_type\<close>
  looks the lower-cased suffix up: ".zip", ".rar", ".7z" and ".iso" give their types, ".pdf"
  gives "pdf", and every other suffix gives "pdf" as well; no error is reported. Suffixes
  with the same lower-case form get the same type.
\<close>

theorem determine_target_type_by_extension:
  assumes "forced = None \<or> forced = Some []"
  shows "determine_target_type U sfx forced
           = (if lower U sfx = str ''.zip'' then str ''zip''
              else if lower U sfx = str ''.rar'' then str ''rar''
              else if lower U sfx = str ''.7z'' then str ''7z''
              else if lower U sfx = str ''.iso'' then str ''iso''
              else str ''pdf'')
       \<and> (lower U sfx = str ''.pdf'' \<longrightarrow> determine_target_type U sfx forced = str ''pdf'')
       \<and> (lower U sfx = lower U sfx'
            \<longrightarrow> determine_target_type U sfx forced = determine_target_type U sfx' forced)"
  using assms
  by (auto simp: determine_target_type_def TARGET_TYPE_MAP_def str_def)

theorem determine_target_type_by_extension_witness:
  "((None :: pystr option) = None \<or> (None :: pystr option) = Some [])
   \<and> determine_target_type latin1 (str ''.ZIP'') None = str ''zip''
   \<and> determine_target_type latin1 (str ''.Rar'') None = str ''rar''
   \<and> determine_target_type latin1 (str ''.7Z'') None = str ''7z''
   \<and> determine_target_type latin1 (str ''.iso'') None = str ''iso''
   \<and> determine_target_type latin1 (str ''.PDF'') None = str ''pdf''
   \<and> determine_target_type latin1 (str ''.txt'') None = str ''pdf''
   \<and> determine_target_type latin1 [] None = str ''pdf''"
proof -
  have h: "(None :: pystr option) = None \<or> (None :: pystr option) = Some []" by simp
  note inst = determine_target_type_by_extension[OF h, of latin1, THEN conjunct1]
  show ?thesis
    using h inst[of "str ''.ZIP''"] inst[of "str ''.Rar''"] inst[of "str ''.7Z''"]
      inst[of "str ''.iso''"] inst[of "str ''.PDF''"] inst[of "str ''.txt''"] inst[of "[]"]
    by (simp add: latin1_def latin1_upper_def str_def)
qed

subsection \<open>Configuration errors\<close>

lemma verdict_not_exhausted: "ending \<noteq> None \<Longrightarrow> verdict t cands ending \<noteq> Inr None"
  by (auto simp: verdict_def find_Some_iff split: option.splits sum.splits)

lemma negative_length_stream:
  assumes "pattern_spec args = None" and "length_arg args = Some len" and "len < 0"
  shows "pattern_streams args = [Raise ValueError]"
  using assms
  by (simp add: pattern_streams_def truthy_def length_streams_def generate_by_length_def
      limited_def)

lemma product_of_empty: "0 < n \<Longrightarrow> itertools_product (replicate n []) = []"
  by (cases n) simp_all

lemma empty_charset_stream:
  assumes "pattern_spec args = None" and "length_arg args = Some len" and "0 < len"
    and "charset args = []"
  shows "pattern_streams args = [Done]"
  using assms
  by (simp add: pattern_streams_def truthy_def length_streams_def generate_by_length_def
      limited_def iter_str_def product_of_empty)

lemma no_seed_stream: "\<not> truthy (seed args) \<Longrightarrow> seed_streams U args = []"
  by (auto simp: truthy_def seed_streams_def split: option.splits)

lemma for_password_all_false_tried:
  "seen st = set (tried st) \<Longrightarrow> \<forall>q \<in> set (items g). t q = Inr False \<Longrightarrow>
   tried (snd (for_password t g st))
     = tried st @ first_occurrences (filter (\<lambda>p. p \<notin> seen st) (items g))"
proof (induction g arbitrary: st)
  case Done
  then show ?case by simp
next
  case (Raise e)
  then show ?case by simp
next
  case (Yield x g)
  from Yield.prems(2) have tx: "t x = Inr False" and rest: "\<forall>q \<in> set (items g). t q = Inr False"
    by simp_all
  show ?case
  proof (cases "x \<in> seen st")
    case True
    then show ?thesis using Yield.IH[OF Yield.prems(1) rest] by simp
  next
    case False
    let ?st1 = "log_attempt (st\<lparr>seen := insert x (seen st)\<rparr>) x"
    let ?st2 = "?st1\<lparr>tried := tried ?st1 @ [x]\<rparr>"
    have s2: "seen ?st2 = set (tried ?st2)" using Yield.prems(1) by simp
    from tx False have step: "for_password t (Yield x g) st = for_password t g ?st2"
      by (simp add: Let_def)
    from Yield.IH[OF s2 rest] show ?thesis
      unfolding step using False
      by (simp add: filter_unseen_insert del: filter_filter for_password.simps)
  qed
qed

lemma items_chain_raise: "items (chain (gs @ Raise e # hs)) = items (chain gs)"
  by (induction gs rule: chain.induct) simp_all

lemma raised_chain_raise: "raised (chain (gs @ Raise e # hs)) \<noteq> None"
  by (induction gs rule: chain.induct) simp_all

lemma raised_chain_raise_clean:
  "raised (chain gs) = None \<Longrightarrow> raised (chain (gs @ Raise e # hs)) = Some e"
  by (induction gs rule: chain.induct) simp_all

lemma negative_length_after_seed:
  assumes "pattern_spec args = None" and "length_arg args = Some len" and "len < 0"
    and "raised (chain (seed_streams U args)) = None"
    and "list_all (\<lambda>q. try_password T q tt = Inr False) (items (chain (seed_streams U args)))"
  shows "fst (crack_target U fs T tt args) = Inl ValueError
       \<and> tried (snd (crack_target U fs T tt args))
           = first_occurrences (items (chain (seed_streams U args)))"
proof -
  let ?t = "\<lambda>p. try_password T p tt"
  have cs: "candidate_streams U fs args
      = seed_streams U args @ Raise ValueError # wordlist_streams U fs args"
    using negative_length_stream[OF assms(1,2,3)] by (simp add: candidate_streams_def)
  have it: "items (chain (candidate_streams U fs args)) = items (chain (seed_streams U args))"
    by (simp only: cs items_chain_raise)
  have ra: "raised (chain (candidate_streams U fs args)) = Some ValueError"
    using assms(4) by (simp only: cs raised_chain_raise_clean)
  have af: "\<forall>q \<in> set (items (chain (seed_streams U args))). ?t q = Inr False"
    using assms(5) by (simp add: list_all_iff)
  then have "find (\<lambda>p. ?t p \<noteq> Inr False) (items (chain (seed_streams U args))) = None"
    by (simp add: find_None_iff)
  then have a: "fst (crack_target U fs T tt args) = Inl ValueError"
    by (simp add: fst_crack_target it ra verdict_def)
  have run: "crack_target U fs T tt args = for_password ?t (chain (candidate_streams U fs args)) start"
    by (simp add: crack_target_def for_stream_chain)
  have "seen start = set (tried start)" by (simp add: start_def)
  from for_password_all_false_tried[OF this, of "chain (candidate_streams U fs args)" ?t] af
  have b: "tried (snd (crack_target U fs T tt args))
           = first_occurrences (items (chain (seed_streams U args)))"
    by (simp add: run it start_def)
  from a b show ?thesis by blast
qed

text \<open>
  C3 (amended). Nothing checks the configuration before the search. When the fixed-length
  strategy is the active one (no pattern, prefix or suffix), a negative length is reported
  only as the \<open>ValueError\<close> raised when the search reaches that stream, so the run never
  ends as exhausted: with no seed the error comes before any candidate is tested, and with
  a seed whose variants are all answered false it comes after each of them has been
  tested. An empty charset with a positive length is not reported: the stream is empty, and
  with no seed and no wordlist the search tests nothing and returns \<open>None\<close>.
\<close>

theorem configuration_errors_not_validated:
  "(pattern_spec args = None \<and> length_arg args = Some len \<and> len < 0
      \<longrightarrow> fst (crack_target U fs T tt args) \<noteq> Inr None)
   \<and> (pattern_spec args = None \<and> length_arg args = Some len \<and> len < 0 \<and> \<not> truthy (seed args)
      \<longrightarrow> crack_target U fs T tt args = (Inl ValueError, start))
   \<and> (pattern_spec args = None \<and> length_arg args = Some len \<and> 0 < len \<and> charset args = []
       \<and> \<not> truthy (seed args) \<and> wordlist_streams U fs args = []
      \<longrightarrow> crack_target U fs T tt args = (Inr None, start))
   \<and> (pattern_spec args = None \<and> length_arg args = Some len \<and> len < 0
       \<and> raised (chain (seed_streams U args)) = None
       \<and> list_all (\<lambda>q. try_password T q tt = Inr False) (items (chain (seed_streams U args)))
      \<longrightarrow> fst (crack_target U fs T tt args) = Inl ValueError
          \<and> tried (snd (crack_target U fs T tt args))
              = first_occurrences (items (chain (seed_streams U args))))"
proof -
  have a: "fst (crack_target U fs T tt args) \<noteq> Inr None"
    if "pattern_spec args = None" "length_arg args = Some len" "len < 0"
  proof -
    have "raised (chain (candidate_streams U fs args)) \<noteq> None"
      using negative_length_stream[OF that]
      by (simp add: candidate_streams_def raised_chain_append split: option.splits)
    then show ?thesis unfolding fst_crack_target by (rule verdict_not_exhausted)
  qed
  have b: "crack_target U fs T tt args = (Inl ValueError, start)"
    if "pattern_spec args = None" "length_arg args = Some len" "len < 0" "\<not> truthy (seed args)"
    using negative_length_stream[OF that(1,2,3)] no_seed_stream[OF that(4)]
    by (simp add: crack_target_def candidate_streams_def)
  have c: "crack_target U fs T tt args = (Inr None, start)"
    if "pattern_spec args = None" "length_arg args = Some len" "0 < len" "charset args = []"
      "\<not> truthy (seed args)" "wordlist_streams U fs args = []"
    using empty_charset_stream[OF that(1,2,3,4)] no_seed_stream[OF that(5)] that(6)
    by (simp add: crack_target_def candidate_streams_def)
  have d: "fst (crack_target U fs T tt args) = Inl ValueError
          \<and> tried (snd (crack_target U fs T tt args))
              = first_occurrences (items (chain (seed_streams U args)))"
    if "pattern_spec args = None" "length_arg args = Some len" "len < 0"
      "raised (chain (seed_streams U args)) = None"
      "list_all (\<lambda>q. try_password T q tt = Inr False) (items (chain (seed_streams U args)))"
    using that by (rule negative_length_after_seed)
  from a b c d show ?thesis by blast
qed

theorem configuration_errors_not_validated_witness:
  "pattern_spec (sample_args\<lparr>seed := None, wordlist := None, length_arg := Some (- 1)\<rparr>) = None
   \<and> length_arg (sample_args\<lparr>seed := None, wordlist := None, length_arg := Some (- 1)\<rparr>) = Some (- 1)
   \<and> (- 1 :: int) < 0
   \<and> \<not> truthy (seed (sample_args\<lparr>seed := None, wordlist := None, length_arg := Some (- 1)\<rparr>))
   \<and> crack_target latin1 sample_fs sample_tools (str ''pdf'')
         (sample_args\<lparr>seed := None, wordlist := None, length_arg := Some (- 1)\<rparr>)
       = (Inl ValueError, start)
   \<and> pattern_spec (sample_args\<lparr>seed := None, wordlist := None, length_arg := Some 3, charset := []\<rparr>) = None
   \<and> wordlist_streams latin1 sample_fs
         (sample_args\<lparr>seed := None, wordlist := None, length_arg := Some 3, charset := []\<rparr>) = []
   \<and> crack_target latin1 sample_fs sample_tools (str ''pdf'')
         (sample_args\<lparr>seed := None, wordlist := None, length_arg := Some 3, charset := []\<rparr>)
       = (Inr None, start)
   \<and> items (chain (seed_streams latin1 (sample_args\<lparr>length_arg := Some (- 1)\<rparr>)))
       = [str ''A'', str ''a'']
   \<and> fst (crack_target latin1 sample_fs sample_tools (str ''pdf'')
         (sample_args\<lparr>length_arg := Some (- 1)\<rparr>)) = Inl ValueError
   \<and> tried (snd (crack_target latin1 sample_fs sample_tools (str ''pdf'')
         (sample_args\<lparr>length_arg := Some (- 1)\<rparr>))) = [str ''A'', str ''a'']"
proof -
  let ?sd = "sample_args\<lparr>length_arg := Some (- 1)\<rparr>"
  have s0: "seed_streams latin1 ?sd = [Yield (str ''A'') (Yield (str ''a'') Done)]"
    by (simp add: seed_streams_def limited_def candidate_variants_def options_def
      substitutions_def latin1_def latin1_upper_def latin1_lower_def sample_args_def
      str_def iter_str_def join_def)
  have s1: "pattern_spec ?sd = None" by (simp add: pattern_spec_def truthy_def sample_args_def)
  have s2: "length_arg ?sd = Some (- 1)" by simp
  have s3: "raised (chain (seed_streams latin1 ?sd)) = None" by (simp add: s0)
  have s4: "list_all (\<lambda>q. try_password sample_tools q (str ''pdf'') = Inr False)
              (items (chain (seed_streams latin1 ?sd)))"
    by (simp add: s0 try_password_def try_pdf_password_def sample_tools_def)
  have s5: "items (chain (seed_streams latin1 ?sd)) = [str ''A'', str ''a'']"
    by (simp add: s0)
  have s6: "first_occurrences [str ''A'', str ''a''] = [str ''A'', str ''a'']"
    by (simp add: str_def)
  have r3: "fst (crack_target latin1 sample_fs sample_tools (str ''pdf'') ?sd) = Inl ValueError
     \<and> tried (snd (crack_target latin1 sample_fs sample_tools (str ''pdf'') ?sd))
         = first_occurrences (items (chain (seed_streams latin1 ?sd)))"
    using configuration_errors_not_validated[of ?sd "- 1" latin1 sample_fs sample_tools "str ''pdf''"]
      s1 s2 s3 s4 by simp
  then have r4: "fst (crack_target latin1 sample_fs sample_tools (str ''pdf'') ?sd) = Inl ValueError"
    and r5: "tried (snd (crack_target latin1 sample_fs sample_tools (str ''pdf'') ?sd))
         = [str ''A'', str ''a'']"
    by (simp_all only: s5 s6)
  let ?neg = "sample_args\<lparr>seed := None, wordlist := None, length_arg := Some (- 1)\<rparr>"
  let ?emp = "sample_args\<lparr>seed := None, wordlist := None, length_arg := Some 3, charset := []\<rparr>"
  have n1: "pattern_spec ?neg = None" by (simp add: pattern_spec_def truthy_def sample_args_def)
  have n2: "length_arg ?neg = Some (- 1)" by simp
  have n3: "(- 1 :: int) < 0" by simp
  have n4: "\<not> truthy (seed ?neg)" by (simp add: truthy_def)
  have e1: "pattern_spec ?emp = None" by (simp add: pattern_spec_def truthy_def sample_args_def)
  have e2: "length_arg ?emp = Some 3" by simp
  have e3: "(0 :: int) < 3" by simp
  have e4: "charset ?emp = []" by simp
  have e5: "\<not> truthy (seed ?emp)" by (simp add: truthy_def)
  have e6: "wordlist_streams latin1 sample_fs ?emp = []" by (simp add: wordlist_streams_def)
  have r1: "crack_target latin1 sample_fs sample_tools (str ''pdf'') ?neg = (Inl ValueError, start)"
    using configuration_errors_not_validated[of ?neg "- 1" latin1 sample_fs sample_tools "str ''pdf''"]
      n1 n2 n3 n4 by blast
  have r2: "crack_target latin1 sample_fs sample_tools (str ''pdf'') ?emp = (Inr None, start)"
    using configuration_errors_not_validated[of ?emp 3 latin1 sample_fs sample_tools "str ''pdf''"]
      e1 e2 e3 e4 e5 e6 by blast
  show ?thesis by (intro conjI n1 n2 n3 n4 r1 e1 e6 r2 s5 r4 r5)
qed

text \<open>
  C3 as stated fails: with length 3, an empty charset and no other source, the search
  returns \<open>None\<close> without an error and without a test, and \<open>main\<close> prints no warning
  and exits with status 1 as after any unsuccessful search. With the seed "a" and length
  -1 the \<open>ValueError\<close> comes only after both seed variants have been tested.
\<close>

theorem empty_charset_silently_exhausted:
  "length_arg (sample_args\<lparr>seed := None, wordlist := None, length_arg := Some 3, charset := []\<rparr>)
     = Some 3
   \<and> charset (sample_args\<lparr>seed := None, wordlist := None, length_arg := Some 3, charset := []\<rparr>)
     = []
   \<and> crack_target latin1 sample_fs sample_tools (str ''pdf'')
         (sample_args\<lparr>seed := None, wordlist := None, length_arg := Some 3, charset := []\<rparr>)
       = (Inr None, start)
   \<and> main latin1 sample_fs sample_tools True (str ''.pdf'')
         (sample_args\<lparr>seed := None, wordlist := None, length_arg := Some 3, charset := []\<rparr>)
       = Inr 1
   \<and> \<not> no_strategy_warning
         (sample_args\<lparr>seed := None, wordlist := None, length_arg := Some 3, charset := []\<rparr>)
   \<and> fst (crack_target latin1 sample_fs sample_tools (str ''pdf'')
         (sample_args\<lparr>wordlist := None, length_arg := Some (- 1)\<rparr>)) = Inl ValueError
   \<and> tried (snd (crack_target latin1 sample_fs sample_tools (str ''pdf'')
         (sample_args\<lparr>wordlist := None, length_arg := Some (- 1)\<rparr>)))
       = [str ''A'', str ''a'']"
proof -
  let ?emp = "sample_args\<lparr>seed := None, wordlist := None, length_arg := Some 3, charset := []\<rparr>"
  let ?neg = "sample_args\<lparr>wordlist := None, length_arg := Some (- 1)\<rparr>"
  have se: "candidate_streams latin1 sample_fs ?emp = [Done]"
    by (simp add: candidate_streams_def seed_streams_def pattern_streams_def pattern_spec_def
      truthy_def length_streams_def wordlist_streams_def generate_by_length_def limited_def
      sample_args_def iter_str_def numeral_3_eq_3)
  have sn: "candidate_streams latin1 sample_fs ?neg
      = [Yield (str ''A'') (Yield (str ''a'') Done), Raise ValueError]"
    by (simp add: candidate_streams_def seed_streams_def pattern_streams_def pattern_spec_def
      truthy_def length_streams_def wordlist_streams_def generate_by_length_def limited_def
      candidate_variants_def options_def substitutions_def
      latin1_def latin1_upper_def latin1_lower_def sample_args_def
      str_def iter_str_def join_def)
  have a: "length_arg ?emp = Some 3" by simp
  have b: "charset ?emp = []" by simp
  have c: "crack_target latin1 sample_fs sample_tools (str ''pdf'') ?emp = (Inr None, start)"
    by (simp add: crack_target_def se)
  have ta: "type_arg ?emp = None"
    by (simp add: sample_args_def)
  have t: "determine_target_type latin1 (str ''.pdf'') None = str ''pdf''"
    by (simp add: determine_target_type_def TARGET_TYPE_MAP_def latin1_def
        latin1_upper_def str_def)
  have d: "main latin1 sample_fs sample_tools True (str ''.pdf'') ?emp = Inr 1"
    unfolding main_def Let_def ta t c by simp
  have w: "\<not> no_strategy_warning ?emp"
    by (simp add: no_strategy_warning_def)
  have f: "\<And>p. try_password sample_tools p (str ''pdf'') = Inr False"
    by (simp add: try_password_def try_pdf_password_def sample_tools_def)
  have "str ''A'' \<noteq> str ''a''" by (simp add: str_def)
  then have run: "crack_target latin1 sample_fs sample_tools (str ''pdf'') ?neg
      = (Inl ValueError,
         \<lparr>seen = {str ''a'', str ''A''}, attempted = 2, progress = [],
          tried = [str ''A'', str ''a'']\<rparr>)"
    by (simp add: crack_target_def sn f start_def log_attempt_def Let_def)
  have g: "fst (crack_target latin1 sample_fs sample_tools (str ''pdf'') ?neg) = Inl ValueError"
    by (simp add: run)
  have h: "tried (snd (crack_target latin1 sample_fs sample_tools (str ''pdf'') ?neg))
       = [str ''A'', str ''a'']"
    by (simp add: run)
  show ?thesis by (intro conjI a b c d w g h)
qed

end
